(* ===== verification/Prelude.thy ===== *)
theory Prelude
  imports Main "HOL-Library.Word" "HOL-Library.Product_Lexorder" "HOL-Library.Multiset"
begin

text \<open>
  Shared vocabulary of the development: Rust results and the \<open>?\<close> operator, list-backed
  SQL tables with the statement forms the scheduler uses (guarded update, ordered and bounded
  selection), and the generic lemmas about them. The component theories import this one; the
  collections below are the simp sets they pass to \<open>simp\<close> and \<open>auto\<close>.
\<close>

named_theorems table_simps \<open>rewrite rules for table statements\<close>
named_theorems sql_defs \<open>definitions of the SQL statements of the scheduler\<close>
named_theorems check_defs \<open>definitions of the schema's constraints\<close>

section \<open>Rust results\<close>

text \<open>
  \<open>Result<T, E>\<close> is \<open>'e + 'a\<close> with \<open>Inl\<close> for \<open>Err\<close>. \<open>and_then\<close> is the \<open>?\<close> operator:
  it propagates an error and otherwise continues with the value.
\<close>

primrec and_then :: "'e + 'a \<Rightarrow> ('a \<Rightarrow> 'e + 'b) \<Rightarrow> 'e + 'b" where
  "and_then (Inl e) f = Inl e"
| "and_then (Inr x) f = f x"

primrec map_err :: "('e \<Rightarrow> 'f) \<Rightarrow> 'e + 'a \<Rightarrow> 'f + 'a" where
  "map_err f (Inl e) = Inl (f e)"
| "map_err f (Inr x) = Inr x"

primrec map_ok :: "('a \<Rightarrow> 'b) \<Rightarrow> 'e + 'a \<Rightarrow> 'e + 'b" where
  "map_ok f (Inl e) = Inl e"
| "map_ok f (Inr x) = Inr (f x)"

primrec ok_or :: "'a option \<Rightarrow> 'e \<Rightarrow> 'e + 'a" where
  "ok_or None e = Inl e"
| "ok_or (Some x) e = Inr x"

text \<open>\<open>Option::transpose\<close> after \<open>Option::map\<close>.\<close>

primrec transpose_map :: "('a \<Rightarrow> 'e + 'b) \<Rightarrow> 'a option \<Rightarrow> 'e + 'b option" where
  "transpose_map f None = Inr None"
| "transpose_map f (Some x) = map_ok Some (f x)"

text \<open>\<open>iter.map(f).collect::<Result<Vec<_>, _>>()\<close>: stops at the first error.\<close>

fun collect_results :: "('a \<Rightarrow> 'e + 'b) \<Rightarrow> 'a list \<Rightarrow> 'e + 'b list" where
  "collect_results f [] = Inr []"
| "collect_results f (x # xs) =
     (case f x of Inl e \<Rightarrow> Inl e
      | Inr y \<Rightarrow> (case collect_results f xs of Inl e \<Rightarrow> Inl e | Inr ys \<Rightarrow> Inr (y # ys)))"

lemma and_then_Inr_iff: "and_then m f = Inr y \<longleftrightarrow> (\<exists>x. m = Inr x \<and> f x = Inr y)"
  by (cases m) auto

lemma and_then_Inl_iff: "and_then m f = Inl e \<longleftrightarrow> m = Inl e \<or> (\<exists>x. m = Inr x \<and> f x = Inl e)"
  by (cases m) auto

lemma map_err_Inr_iff [simp]: "map_err f m = Inr y \<longleftrightarrow> m = Inr y"
  by (cases m) auto

lemma map_ok_Inr_iff [simp]: "map_ok f m = Inr y \<longleftrightarrow> (\<exists>x. m = Inr x \<and> y = f x)"
  by (cases m) auto

lemma map_ok_Inl_iff [simp]: "map_ok f m = Inl e \<longleftrightarrow> m = Inl e"
  by (cases m) auto

lemma ok_or_Inr_iff [simp]: "ok_or x e = Inr y \<longleftrightarrow> x = Some y"
  by (cases x) auto

lemma collect_results_all_ok:
  assumes "\<And>x. x \<in> set xs \<Longrightarrow> f x = Inr (g x)"
  shows "collect_results f xs = Inr (map g xs)"
  using assms by (induction xs) auto

lemma collect_results_Inr_iff:
  "collect_results f xs = Inr ys \<longleftrightarrow> list_all2 (\<lambda>x y. f x = Inr y) xs ys"
  by (induction f xs arbitrary: ys rule: collect_results.induct)
    (auto simp: list_all2_Cons1 split: sum.splits)

lemma collect_results_length: "collect_results f xs = Inr ys \<Longrightarrow> length ys = length xs"
  by (metis collect_results_Inr_iff list_all2_lengthD)

section \<open>Tables\<close>

text \<open>
  A table is the list of its rows in physical order. \<open>UPDATE \<dots> SET f WHERE p\<close> maps the
  matching rows; \<open>SELECT \<dots> WHERE p ORDER BY k LIMIT n\<close> filters, sorts stably and
  truncates. The physical order decides what SQL leaves open (ties of \<open>ORDER BY\<close>), and the
  theorems hold for every order.
\<close>

definition update_where :: "('r \<Rightarrow> bool) \<Rightarrow> ('r \<Rightarrow> 'r) \<Rightarrow> 'r list \<Rightarrow> 'r list" where
  "update_where p f t = map (\<lambda>r. if p r then f r else r) t"

definition select_ordered :: "('r \<Rightarrow> 'k::linorder) \<Rightarrow> ('r \<Rightarrow> bool) \<Rightarrow> nat \<Rightarrow> 'r list \<Rightarrow> 'r list" where
  "select_ordered k p n t = take n (sort_key k (filter p t))"

lemma update_where_Nil [simp]: "update_where p f [] = []"
  by (simp add: update_where_def)

lemma update_where_Cons [simp]:
  "update_where p f (r # t) = (if p r then f r else r) # update_where p f t"
  by (simp add: update_where_def)

lemma set_update_where [table_simps]:
  "set (update_where p f t) = f ` {r \<in> set t. p r} \<union> {r \<in> set t. \<not> p r}"
  by (auto simp: update_where_def)

lemma length_update_where [simp]: "length (update_where p f t) = length t"
  by (simp add: update_where_def)

lemma update_where_id: "(\<And>r. r \<in> set t \<Longrightarrow> p r \<Longrightarrow> f r = r) \<Longrightarrow> update_where p f t = t"
  by (induction t) auto

lemma update_where_none: "(\<And>r. r \<in> set t \<Longrightarrow> \<not> p r) \<Longrightarrow> update_where p f t = t"
  by (induction t) auto

lemma update_where_keeps:
  assumes "r \<in> set t" "Q r" "\<And>x. Q x \<Longrightarrow> p x \<Longrightarrow> Q (f x)"
  shows "\<exists>x \<in> set (update_where p f t). Q x"
  using assms by (cases "p r") (auto simp: set_update_where)

lemma update_where_cong:
  assumes "\<And>r. r \<in> set t \<Longrightarrow> p r = q r" and "\<And>r. r \<in> set t \<Longrightarrow> p r \<Longrightarrow> f r = g r"
  shows "update_where p f t = update_where q g t"
  using assms by (auto simp: update_where_def)

lemma map_key_update_where:
  assumes "\<And>r. r \<in> set t \<Longrightarrow> p r \<Longrightarrow> k (f r) = k r"
  shows "map k (update_where p f t) = map k t"
  using assms by (induction t) auto

lemma filter_map_key_update_where:
  assumes "\<And>r. r \<in> set t \<Longrightarrow> p r \<Longrightarrow> k (f r) = k r"
    and "\<And>r. r \<in> set t \<Longrightarrow> p r \<Longrightarrow> q (f r) = q r"
  shows "map k (filter q (update_where p f t)) = map k (filter q t)"
  using assms by (induction t) auto

lemma ball_update_where:
  "(\<forall>r \<in> set (update_where p f t). P r) \<longleftrightarrow>
   (\<forall>r \<in> set t. (p r \<longrightarrow> P (f r)) \<and> (\<not> p r \<longrightarrow> P r))"
  by (auto simp: set_update_where)

lemma set_select_ordered: "set (select_ordered k p n t) \<subseteq> {r \<in> set t. p r}"
  unfolding select_ordered_def by (auto dest: in_set_takeD)

lemma select_orderedD:
  assumes "r \<in> set (select_ordered k p n t)"
  shows "r \<in> set t" and "p r"
  using assms set_select_ordered by fastforce+

lemma length_select_ordered: "length (select_ordered k p n t) \<le> n"
  by (simp add: select_ordered_def)

lemma sorted_select_ordered: "sorted (map k (select_ordered k p n t))"
  by (simp add: select_ordered_def take_map[symmetric] sorted_wrt_take)

lemma distinct_key_select_ordered:
  assumes "distinct (map g t)"
  shows "distinct (map g (select_ordered k p n t))"
proof -
  have "distinct (map g (filter p t))"
    using assms by (rule distinct_map_filter)
  moreover have "mset (map g (sort_key k (filter p t))) = mset (map g (filter p t))"
    by (simp add: mset_map)
  ultimately have "distinct (map g (sort_key k (filter p t)))"
    using mset_eq_imp_distinct_iff by blast
  then show ?thesis
    by (simp add: select_ordered_def take_map[symmetric])
qed

text \<open>
  Selection takes the best rows: a matching row that was left out ranks no better than any row
  that was taken, and rows are left out only when the limit is exhausted.
\<close>

lemma select_ordered_best:
  assumes "r \<in> set t" "p r" "r \<notin> set (select_ordered k p n t)"
  shows "length (select_ordered k p n t) = n"
    and "s \<in> set (select_ordered k p n t) \<Longrightarrow> k s \<le> k r"
proof -
  let ?s = "sort_key k (filter p t)"
  have r: "r \<in> set ?s" using assms by simp
  have "set ?s = set (take n ?s) \<union> set (drop n ?s)"
    by (metis append_take_drop_id set_append)
  with r assms(3) have d: "r \<in> set (drop n ?s)"
    by (auto simp: select_ordered_def)
  then show "length (select_ordered k p n t) = n"
    by (cases "n \<le> length ?s") (auto simp: select_ordered_def)
  have "sorted (map k (take n ?s @ drop n ?s))"
    by simp
  then have "\<forall>x \<in> set (take n ?s). \<forall>y \<in> set (drop n ?s). k x \<le> k y"
    unfolding map_append sorted_append by (auto simp: sorted_append)
  with d show "s \<in> set (select_ordered k p n t) \<Longrightarrow> k s \<le> k r"
    by (auto simp: select_ordered_def)
qed

lemma select_ordered_all:
  assumes "length (filter p t) \<le> n"
  shows "set (select_ordered k p n t) = {r \<in> set t. p r}"
  using assms by (auto simp: select_ordered_def)

lemma select_ordered_eq_Nil:
  assumes "0 < n"
  shows "select_ordered k p n t = [] \<longleftrightarrow> (\<forall>r \<in> set t. \<not> p r)"
proof -
  have "sort_key k (filter p t) = [] \<longleftrightarrow> filter p t = []"
    by (metis length_0_conv length_sort)
  with assms show ?thesis
    by (auto simp: select_ordered_def filter_empty_conv)
qed

section \<open>Keyed lookup\<close>

lemma find_key_Some:
  assumes "find (\<lambda>r. k r = v) t = Some r"
  shows "r \<in> set t" "k r = v"
  using assms by (auto simp: find_Some_iff)

lemma find_key_unique:
  assumes "distinct (map k t)" "r \<in> set t"
  shows "find (\<lambda>x. k x = k r) t = Some r"
  using assms by (induction t) (auto simp: image_iff)

lemma find_key_None: "find (\<lambda>r. k r = v) t = None \<longleftrightarrow> v \<notin> k ` set t"
  by (induction t) (auto simp: image_iff)

lemma distinct_key_eq:
  assumes "distinct (map k t)" "r \<in> set t" "s \<in> set t" "k r = k s"
  shows "r = s"
  using assms by (metis distinct_map inj_on_def)

lemma distinct_filter_key:
  "distinct (map k t) \<Longrightarrow> distinct (map k (filter q t))"
  by (rule distinct_map_filter)

lemma distinct_set_singleton: "distinct xs \<Longrightarrow> set xs = {x} \<Longrightarrow> xs = [x]"
proof (cases xs)
  case (Cons y ys)
  assume "distinct xs" "set xs = {x}"
  with Cons have "y = x" "set ys \<subseteq> {x}" "x \<notin> set ys" by auto
  then have "ys = []" by (cases ys) auto
  with Cons \<open>y = x\<close> show ?thesis by simp
qed simp

section \<open>Simulation\<close>

text \<open>
  A step relation that keeps an invariant and, under it, is matched by the steps of an abstract one.
  The locale lifts both facts from a step to a run; it is interpreted for the scheduler over the task
  machine and for the worker over the scheduler.
\<close>

locale simulation =
  fixes cstep :: "'c \<Rightarrow> 'c \<Rightarrow> bool"
    and astep :: "'a \<Rightarrow> 'a \<Rightarrow> bool"
    and abs_state :: "'c \<Rightarrow> 'a"
    and inv :: "'c \<Rightarrow> bool"
  assumes inv_step: "cstep c c' \<Longrightarrow> inv c \<Longrightarrow> inv c'"
    and sim_step: "cstep c c' \<Longrightarrow> inv c \<Longrightarrow> astep\<^sup>*\<^sup>* (abs_state c) (abs_state c')"
begin

lemma inv_steps: "cstep\<^sup>*\<^sup>* c c' \<Longrightarrow> inv c \<Longrightarrow> inv c'"
  by (induction rule: rtranclp_induct) (auto intro: inv_step)

lemma sim_steps: "cstep\<^sup>*\<^sup>* c c' \<Longrightarrow> inv c \<Longrightarrow> astep\<^sup>*\<^sup>* (abs_state c) (abs_state c')"
proof (induction rule: rtranclp_induct)
  case (step y z)
  have "inv y" using inv_steps step.hyps(1) step.prems .
  with step show ?case by (auto dest: sim_step intro: rtranclp_trans)
qed simp

end

end
