(* ===== verification/Rust_Std.thy ===== *)
theory Rust_Std
  imports Prelude
begin

text \<open>
  The part of Rust's standard library the scheduler uses: strings as sequences of Unicode scalar
  values with \<open>str::trim\<close>, checked integer conversions, non-zero integers and
  \<open>std::time::Duration\<close>. Signed integers are \<open>int\<close> with their range as a predicate, since
  the scheduler only ever converts them with checks; unsigned ones are words.
\<close>

section \<open>Strings\<close>

type_synonym rust_char = nat
type_synonym rust_string = "rust_char list"

text \<open>A string literal of the source, as scalar values.\<close>

definition lit :: "string \<Rightarrow> rust_string" where
  "lit s = map of_char s"

text \<open>The Unicode \<open>White_Space\<close> property, which \<open>char::is_whitespace\<close> tests.\<close>

definition is_whitespace :: "rust_char \<Rightarrow> bool" where
  "is_whitespace c \<longleftrightarrow>
     (9 \<le> c \<and> c \<le> 13) \<or> c = 32 \<or> c = 133 \<or> c = 160 \<or> c = 5760 \<or>
     (8192 \<le> c \<and> c \<le> 8202) \<or> c = 8232 \<or> c = 8233 \<or> c = 8239 \<or> c = 8287 \<or> c = 12288"

definition trim :: "rust_string \<Rightarrow> rust_string" where
  "trim s = rev (dropWhile is_whitespace (rev (dropWhile is_whitespace s)))"

lemma trim_id_iff:
  "trim s = s \<longleftrightarrow> s = [] \<or> (\<not> is_whitespace (hd s) \<and> \<not> is_whitespace (last s))"
proof (cases s)
  case Nil
  then show ?thesis by (simp add: trim_def)
next
  case (Cons c cs)
  let ?d = "dropWhile is_whitespace s"
  have tail: "dropWhile is_whitespace (rev s) = rev s \<longleftrightarrow> \<not> is_whitespace (last s)"
    using Cons by (metis dropWhile_eq_self_iff hd_rev list.distinct(1) rev_is_Nil_conv)
  have app: "takeWhile is_whitespace s @ ?d = s" by simp
  have len: "length (trim s) \<le> length ?d"
    unfolding trim_def by (metis length_dropWhile_le length_rev)
  show ?thesis
  proof
    assume eq: "trim s = s"
    then have "length s \<le> length ?d" using len by simp
    then have d: "?d = s"
      by (metis app append_self_conv2 add_le_same_cancel2 le_zero_eq length_0_conv length_append)
    then have "\<not> is_whitespace (hd s)" using Cons by (metis dropWhile_eq_self_iff list.distinct(1))
    moreover have "dropWhile is_whitespace (rev s) = rev s"
      using eq d by (metis rev_rev_ident trim_def)
    ultimately show "s = [] \<or> (\<not> is_whitespace (hd s) \<and> \<not> is_whitespace (last s))"
      using tail by simp
  next
    assume "s = [] \<or> (\<not> is_whitespace (hd s) \<and> \<not> is_whitespace (last s))"
    then show "trim s = s"
      using Cons tail by (auto simp: trim_def)
  qed
qed

section \<open>Integers\<close>

definition i16_max :: int where "i16_max = 2 ^ 15 - 1"
definition i32_max :: int where "i32_max = 2 ^ 31 - 1"
definition i64_max :: int where "i64_max = 2 ^ 63 - 1"

definition in_i16 :: "int \<Rightarrow> bool" where "in_i16 i \<longleftrightarrow> - i16_max - 1 \<le> i \<and> i \<le> i16_max"
definition in_i32 :: "int \<Rightarrow> bool" where "in_i32 i \<longleftrightarrow> - i32_max - 1 \<le> i \<and> i \<le> i32_max"
definition in_i64 :: "int \<Rightarrow> bool" where "in_i64 i \<longleftrightarrow> - i64_max - 1 \<le> i \<and> i \<le> i64_max"

lemmas int_range_defs = in_i16_def in_i32_def in_i64_def i16_max_def i32_max_def i64_max_def

type_synonym u32 = "32 word"
type_synonym u64 = "64 word"
type_synonym usize = "64 word"

text \<open>\<open>i32::try_from(u32)\<close>, \<open>i64::try_from(usize)\<close>, \<open>i64::try_from(u128)\<close>, \<open>u32::try_from(i32)\<close>.\<close>

definition i32_try_from_u32 :: "u32 \<Rightarrow> int option" where
  "i32_try_from_u32 v = (if uint v \<le> i32_max then Some (uint v) else None)"

definition i64_try_from_usize :: "usize \<Rightarrow> int option" where
  "i64_try_from_usize v = (if uint v \<le> i64_max then Some (uint v) else None)"

definition i64_try_from_u128 :: "nat \<Rightarrow> int option" where
  "i64_try_from_u128 v = (if int v \<le> i64_max then Some (int v) else None)"

definition u32_try_from_i32 :: "int \<Rightarrow> u32 option" where
  "u32_try_from_i32 i = (if 0 \<le> i then Some (word_of_int i) else None)"

text \<open>\<open>i32::unsigned_abs\<close> and \<open>i64::unsigned_abs\<close>.\<close>

definition i32_unsigned_abs :: "int \<Rightarrow> u32" where
  "i32_unsigned_abs i = word_of_int \<bar>i\<bar>"

definition i64_unsigned_abs :: "int \<Rightarrow> u64" where
  "i64_unsigned_abs i = word_of_int \<bar>i\<bar>"

text \<open>\<open>NonZero::new\<close>.\<close>

definition non_zero :: "'a::zero \<Rightarrow> 'a option" where
  "non_zero x = (if x = 0 then None else Some x)"

text \<open>\<open>u64::saturating_add\<close>.\<close>

definition u64_saturating_add :: "u64 \<Rightarrow> u64 \<Rightarrow> u64" where
  "u64_saturating_add a b = (if uint a + uint b < 2 ^ 64 then a + b else - 1)"

lemma uint_saturating_add: "uint (u64_saturating_add a b) = min (uint a + uint b) (2 ^ 64 - 1)"
proof (cases "uint a + uint b < 2 ^ 64")
  case True
  then have "uint (a + b) = uint a + uint b"
    by (simp add: uint_word_ariths mod_pos_pos_trivial)
  with True show ?thesis by (simp add: u64_saturating_add_def)
next
  case False
  have "uint (- 1 :: u64) = 2 ^ 64 - 1" by code_simp
  with False show ?thesis by (simp add: u64_saturating_add_def min_def)
qed

lemma uint_i32_unsigned_abs: "in_i32 i \<Longrightarrow> uint (i32_unsigned_abs i) = \<bar>i\<bar>"
  unfolding i32_unsigned_abs_def uint_word_of_int
  by (rule mod_pos_pos_trivial) (auto simp: int_range_defs)

lemma uint_i64_unsigned_abs: "in_i64 i \<Longrightarrow> uint (i64_unsigned_abs i) = \<bar>i\<bar>"
  unfolding i64_unsigned_abs_def uint_word_of_int
  by (rule mod_pos_pos_trivial) (auto simp: int_range_defs)

section \<open>Durations\<close>

record duration =
  d_secs :: nat
  d_nanos :: nat

definition duration_wf :: "duration \<Rightarrow> bool" where
  "duration_wf d \<longleftrightarrow> d_secs d < 2 ^ 64 \<and> d_nanos d < 10 ^ 9"

definition duration_total_nanos :: "duration \<Rightarrow> nat" where
  "duration_total_nanos d = d_secs d * 10 ^ 9 + d_nanos d"

definition subsec_nanos :: "duration \<Rightarrow> nat" where
  "subsec_nanos d = d_nanos d"

definition as_micros :: "duration \<Rightarrow> nat" where
  "as_micros d = d_secs d * 1000000 + d_nanos d div 1000"

definition from_secs :: "nat \<Rightarrow> duration" where
  "from_secs s = \<lparr>d_secs = s, d_nanos = 0\<rparr>"

definition from_micros :: "u64 \<Rightarrow> duration" where
  "from_micros m = \<lparr>d_secs = unat m div 1000000, d_nanos = (unat m mod 1000000) * 1000\<rparr>"

definition duration_is_zero :: "duration \<Rightarrow> bool" where
  "duration_is_zero d \<longleftrightarrow> d_secs d = 0 \<and> d_nanos d = 0"

text \<open>Division by a \<open>u32\<close>: \<open>Duration::checked_div\<close> carries the seconds' remainder into the nanoseconds.\<close>

definition duration_div :: "duration \<Rightarrow> nat \<Rightarrow> duration" where
  "duration_div d n =
     (let extra_secs = d_secs d mod n; extra_nanos = d_nanos d mod n
      in \<lparr>d_secs = d_secs d div n,
          d_nanos = d_nanos d div n + (extra_secs * 10 ^ 9 + extra_nanos) div n\<rparr>)"

lemma duration_eqI:
  assumes "duration_wf d" "duration_wf e" "duration_total_nanos d = duration_total_nanos e"
  shows "d = e"
proof -
  have secs: "d_secs x = duration_total_nanos x div 10 ^ 9"
    and nanos: "d_nanos x = duration_total_nanos x mod 10 ^ 9" if "duration_wf x" for x :: duration
    using that by (simp_all add: duration_wf_def duration_total_nanos_def)
  show ?thesis
    using assms by (auto intro!: duration.equality simp: secs nanos)
qed

lemma duration_is_zero_iff: "duration_is_zero d \<longleftrightarrow> duration_total_nanos d = 0"
  by (simp add: duration_is_zero_def duration_total_nanos_def)

lemma from_micros_wf: "duration_wf (from_micros m)"
proof -
  have "unat m < 2 ^ LENGTH(64)" by (rule unsigned_less)
  then show ?thesis by (simp add: duration_wf_def from_micros_def)
qed

lemma from_micros_total: "duration_total_nanos (from_micros m) = unat m * 1000"
proof -
  have "x div 1000000 * 1000000000 + x mod 1000000 * 1000 = x * 1000" for x :: nat
    using mult_div_mod_eq [of 1000000 x] by linarith
  then show ?thesis
    by (simp add: duration_total_nanos_def from_micros_def)
qed

lemma as_micros_from_micros: "as_micros (from_micros m) = unat m"
  by (simp add: as_micros_def from_micros_def)

lemma duration_div_total:
  assumes "0 < n"
  shows "duration_total_nanos (duration_div d n) = duration_total_nanos d div n"
proof -
  let ?s = "d_secs d" and ?k = "d_nanos d"
  have "?s * 10 ^ 9 = n * (?s div n * 10 ^ 9) + (?s mod n) * 10 ^ 9"
    by (metis distrib_right mult.assoc mult_div_mod_eq)
  moreover have "?k = n * (?k div n) + ?k mod n"
    by simp
  ultimately have "?s * 10 ^ 9 + ?k =
      n * (?s div n * 10 ^ 9 + ?k div n) + ((?s mod n) * 10 ^ 9 + ?k mod n)"
    unfolding distrib_left by linarith
  then have "(?s * 10 ^ 9 + ?k) div n =
      (?s div n * 10 ^ 9 + ?k div n) + ((?s mod n) * 10 ^ 9 + ?k mod n) div n"
    using assms by simp
  then show ?thesis
    by (simp add: duration_total_nanos_def duration_div_def Let_def)
qed

end
