(* ===== verification/Ids.thy ===== *)
theory Ids
  imports Rust_Std
begin

text \<open>
  \<^verbatim>\<open>src/src/ids.rs\<close>: the UUID newtypes with their order (used by \<open>ORDER BY id\<close>), the identifier
  policy and the three string newtypes built on it. The locale \<open>identifier_newtype\<close> states what the three
  newtypes share; it is interpreted on each of them.
\<close>

section \<open>UUID newtypes\<close>

text \<open>PostgreSQL orders UUIDs by their bytes, that is as unsigned 128-bit numbers.\<close>

type_synonym uuid = "128 word"

datatype JobId = JobId uuid
datatype RunId = RunId uuid
datatype LeaseToken = LeaseToken uuid

type_synonym TaskId = RunId
type_synonym ScheduleId = JobId

primrec RunId_uuid :: "RunId \<Rightarrow> uuid" where
  "RunId_uuid (RunId u) = u"

instantiation RunId :: linorder
begin

definition less_eq_RunId :: "RunId \<Rightarrow> RunId \<Rightarrow> bool" where
  "less_eq_RunId a b \<longleftrightarrow> RunId_uuid a \<le> RunId_uuid b"

definition less_RunId :: "RunId \<Rightarrow> RunId \<Rightarrow> bool" where
  "less_RunId a b \<longleftrightarrow> RunId_uuid a < RunId_uuid b"

instance
proof
  fix x y z :: RunId
  show "x < y \<longleftrightarrow> x \<le> y \<and> \<not> y \<le> x"
    by (auto simp: less_RunId_def less_eq_RunId_def)
  show "x \<le> x" and "x \<le> y \<Longrightarrow> y \<le> z \<Longrightarrow> x \<le> z" and "x \<le> y \<or> y \<le> x"
    by (auto simp: less_eq_RunId_def)
  show "x \<le> y \<Longrightarrow> y \<le> x \<Longrightarrow> x = y"
    by (cases x; cases y) (auto simp: less_eq_RunId_def)
qed

end

lemma RunId_le [simp]: "RunId a \<le> RunId b \<longleftrightarrow> a \<le> b"
  by (simp add: less_eq_RunId_def)

lemma RunId_less [simp]: "RunId a < RunId b \<longleftrightarrow> a < b"
  by (simp add: less_RunId_def)

section \<open>The identifier policy\<close>

definition MAX_IDENTIFIER_LEN :: nat where
  "MAX_IDENTIFIER_LEN = 255"

datatype IdentifierError = Empty | SurroundingWhitespace | TooLong

definition validate_identifier :: "rust_string \<Rightarrow> IdentifierError + unit" where
  "validate_identifier s =
     (if s = [] then Inl Empty
      else if trim s \<noteq> s then Inl SurroundingWhitespace
      else if length s > MAX_IDENTIFIER_LEN then Inl TooLong
      else Inr ())"

text \<open>The strings the policy accepts, in terms of their first and last character.\<close>

definition identifier_ok :: "rust_string \<Rightarrow> bool" where
  "identifier_ok s \<longleftrightarrow>
     1 \<le> length s \<and> length s \<le> MAX_IDENTIFIER_LEN \<and>
     \<not> is_whitespace (hd s) \<and> \<not> is_whitespace (last s)"

lemma validate_identifier_ok: "validate_identifier s = Inr () \<longleftrightarrow> identifier_ok s"
  by (auto simp: validate_identifier_def identifier_ok_def trim_id_iff Suc_le_eq)

lemma validate_identifier_errors:
  "validate_identifier s = Inl Empty \<longleftrightarrow> s = []"
  "validate_identifier s = Inl SurroundingWhitespace \<longleftrightarrow>
     s \<noteq> [] \<and> (is_whitespace (hd s) \<or> is_whitespace (last s))"
  "validate_identifier s = Inl TooLong \<longleftrightarrow>
     s \<noteq> [] \<and> \<not> is_whitespace (hd s) \<and> \<not> is_whitespace (last s) \<and> MAX_IDENTIFIER_LEN < length s"
  by (auto simp: validate_identifier_def trim_id_iff)

section \<open>The string newtypes\<close>

datatype JobName = JobName rust_string
datatype WorkerId = WorkerId rust_string
datatype DeduplicationKey = DeduplicationKey rust_string

primrec JobName_as_str :: "JobName \<Rightarrow> rust_string" where
  "JobName_as_str (JobName s) = s"

primrec WorkerId_as_str :: "WorkerId \<Rightarrow> rust_string" where
  "WorkerId_as_str (WorkerId s) = s"

primrec DeduplicationKey_as_str :: "DeduplicationKey \<Rightarrow> rust_string" where
  "DeduplicationKey_as_str (DeduplicationKey s) = s"

definition JobName_try_from :: "rust_string \<Rightarrow> IdentifierError + JobName" where
  "JobName_try_from s = and_then (validate_identifier s) (\<lambda>_. Inr (JobName s))"

definition JobName_from_str :: "rust_string \<Rightarrow> IdentifierError + JobName" where
  "JobName_from_str s = JobName_try_from s"

definition WorkerId_try_from :: "rust_string \<Rightarrow> IdentifierError + WorkerId" where
  "WorkerId_try_from s = and_then (validate_identifier s) (\<lambda>_. Inr (WorkerId s))"

definition WorkerId_from_str :: "rust_string \<Rightarrow> IdentifierError + WorkerId" where
  "WorkerId_from_str s = WorkerId_try_from s"

definition DeduplicationKey_try_from :: "rust_string \<Rightarrow> IdentifierError + DeduplicationKey" where
  "DeduplicationKey_try_from s = and_then (validate_identifier s) (\<lambda>_. Inr (DeduplicationKey s))"

text \<open>
  What clients of an identifier newtype rely on: the constructor runs the policy, and the text is
  kept as it was.
\<close>

locale identifier_newtype =
  fixes try_from :: "rust_string \<Rightarrow> IdentifierError + 'a"
    and as_str :: "'a \<Rightarrow> rust_string"
  assumes as_str_inj: "as_str x = as_str y \<Longrightarrow> x = y"
    and try_from_accepts: "identifier_ok s \<Longrightarrow> \<exists>x. try_from s = Inr x \<and> as_str x = s"
    and try_from_rejects: "validate_identifier s = Inl e \<Longrightarrow> try_from s = Inl e"
begin

lemma try_from_iff: "try_from s = Inr x \<longleftrightarrow> identifier_ok s \<and> as_str x = s"
proof (cases "validate_identifier s")
  case (Inl e)
  then have "\<not> identifier_ok s" using validate_identifier_ok [of s] by simp
  with Inl show ?thesis by (simp add: try_from_rejects)
next
  case (Inr u)
  then have "identifier_ok s" using validate_identifier_ok [of s] by simp
  then show ?thesis using try_from_accepts as_str_inj by fastforce
qed

lemma try_from_error_iff: "try_from s = Inl e \<longleftrightarrow> validate_identifier s = Inl e"
proof (cases "validate_identifier s")
  case (Inl e')
  then show ?thesis by (auto simp: try_from_rejects)
next
  case (Inr u)
  then show ?thesis
    using try_from_accepts validate_identifier_ok [of s] by fastforce
qed

lemma roundtrip: "identifier_ok (as_str x) \<Longrightarrow> try_from (as_str x) = Inr x"
  by (simp add: try_from_iff)

lemma distinct_names: "try_from s = Inr x \<Longrightarrow> try_from t = Inr x \<Longrightarrow> s = t"
  by (simp add: try_from_iff)

end

interpretation job_name: identifier_newtype JobName_try_from JobName_as_str
proof
  show "JobName_as_str x = JobName_as_str y \<Longrightarrow> x = y" for x y
    by (cases x; cases y) simp
qed (auto simp: JobName_try_from_def validate_identifier_ok [symmetric])

interpretation worker_name: identifier_newtype WorkerId_try_from WorkerId_as_str
proof
  show "WorkerId_as_str x = WorkerId_as_str y \<Longrightarrow> x = y" for x y
    by (cases x; cases y) simp
qed (auto simp: WorkerId_try_from_def validate_identifier_ok [symmetric])

interpretation dedup_key: identifier_newtype DeduplicationKey_try_from DeduplicationKey_as_str
proof
  show "DeduplicationKey_as_str x = DeduplicationKey_as_str y \<Longrightarrow> x = y" for x y
    by (cases x; cases y) simp
qed (auto simp: DeduplicationKey_try_from_def validate_identifier_ok [symmetric])

end
