(* ===== verification/Config_Types.thy ===== *)
theory Config_Types
  imports Ids
begin

text \<open>
  \<^verbatim>\<open>src/src/models.rs\<close>, lines 42 to 252: the validated configuration types \<open>MaxAttempts\<close>,
  \<open>LeaseDuration\<close> and \<open>RetryBackoff\<close> with their conversions from caller values, to and from
  stored values, and the job lifecycle. The locale \<open>interval_codec\<close> is the contract the two
  duration types share.
\<close>

section \<open>Lifecycle\<close>

datatype JobLifecycle = Active | Paused

definition JobLifecycle_is_paused :: "JobLifecycle \<Rightarrow> bool" where
  "JobLifecycle_is_paused l = (case l of Paused \<Rightarrow> True | Active \<Rightarrow> False)"

definition JobLifecycle_from_paused :: "bool \<Rightarrow> JobLifecycle" where
  "JobLifecycle_from_paused p = (if p then Paused else Active)"

lemma lifecycle_roundtrip [simp]:
  "JobLifecycle_from_paused (JobLifecycle_is_paused l) = l"
  "JobLifecycle_is_paused (JobLifecycle_from_paused p) = p"
  by (cases l; simp add: JobLifecycle_is_paused_def JobLifecycle_from_paused_def)
    (simp add: JobLifecycle_is_paused_def JobLifecycle_from_paused_def)

section \<open>Maximum attempts\<close>

text \<open>The field is a \<open>NonZeroI32\<close>; the constructors keep it positive.\<close>

datatype MaxAttempts = MaxAttempts int

datatype MaxAttemptsError = NonPositive | TooLargeAttempts

definition MaxAttempts_try_from :: "u32 \<Rightarrow> MaxAttemptsError + MaxAttempts" where
  "MaxAttempts_try_from v =
     and_then (ok_or (i32_try_from_u32 v) TooLargeAttempts) (\<lambda>i.
     and_then (ok_or (non_zero i) NonPositive) (\<lambda>nz.
     Inr (MaxAttempts nz)))"

definition MaxAttempts_default_value :: MaxAttempts where
  "MaxAttempts_default_value = MaxAttempts 3"

definition MaxAttempts_from_db_i32 :: "int \<Rightarrow> MaxAttemptsError + MaxAttempts" where
  "MaxAttempts_from_db_i32 i =
     ok_or (map_option MaxAttempts
       (case non_zero i of None \<Rightarrow> None | Some n \<Rightarrow> (if 0 < n then Some n else None))) NonPositive"

primrec MaxAttempts_to_i32 :: "MaxAttempts \<Rightarrow> int" where
  "MaxAttempts_to_i32 (MaxAttempts n) = n"

definition MaxAttempts_get :: "MaxAttempts \<Rightarrow> u32" where
  "MaxAttempts_get m = i32_unsigned_abs (MaxAttempts_to_i32 m)"

definition MaxAttempts_inv :: "MaxAttempts \<Rightarrow> bool" where
  "MaxAttempts_inv m \<longleftrightarrow> 1 \<le> MaxAttempts_to_i32 m \<and> MaxAttempts_to_i32 m \<le> i32_max"

lemma MaxAttempts_try_from_iff:
  "MaxAttempts_try_from v = Inr m \<longleftrightarrow> v \<noteq> 0 \<and> uint v \<le> i32_max \<and> MaxAttempts_to_i32 m = uint v"
  by (cases m) (auto simp: MaxAttempts_try_from_def and_then_Inr_iff i32_try_from_u32_def
      non_zero_def uint_0_iff split: if_splits)

lemma MaxAttempts_try_from_inv: "MaxAttempts_try_from v = Inr m \<Longrightarrow> MaxAttempts_inv m"
  using uint_ge_0 [of v]
  by (auto simp: MaxAttempts_try_from_iff MaxAttempts_inv_def uint_0_iff order_le_less)

lemma MaxAttempts_from_db_iff:
  "MaxAttempts_from_db_i32 i = Inr m \<longleftrightarrow> 1 \<le> i \<and> MaxAttempts_to_i32 m = i"
  by (cases m) (auto simp: MaxAttempts_from_db_i32_def non_zero_def split: option.splits if_splits)

section \<open>Stored intervals\<close>

text \<open>Diesel's \<open>PgInterval\<close> and its constructor from microseconds.\<close>

record pg_interval =
  iv_months :: int
  iv_days :: int
  iv_microseconds :: int

definition from_microseconds :: "int \<Rightarrow> pg_interval" where
  "from_microseconds m = \<lparr>iv_months = 0, iv_days = 0, iv_microseconds = m\<rparr>"

lemma from_microseconds_sel [simp]:
  "iv_months (from_microseconds m) = 0" "iv_days (from_microseconds m) = 0"
  "iv_microseconds (from_microseconds m) = m"
  by (simp_all add: from_microseconds_def)

datatype LeaseDurationError =
  ZeroDuration
| PrecisionLoss
| TooLargeDuration
| CalendarComponent int int
| Negative int

section \<open>Lease duration and retry backoff\<close>

datatype LeaseDuration = LeaseDuration int
datatype RetryBackoff = RetryBackoff int

primrec lease_micros :: "LeaseDuration \<Rightarrow> int" where
  "lease_micros (LeaseDuration m) = m"

primrec backoff_micros :: "RetryBackoff \<Rightarrow> int" where
  "backoff_micros (RetryBackoff m) = m"

definition RetryBackoff_try_from :: "duration \<Rightarrow> LeaseDurationError + RetryBackoff" where
  "RetryBackoff_try_from d =
     (if subsec_nanos d mod 1000 \<noteq> 0 then Inl PrecisionLoss
      else and_then (ok_or (i64_try_from_u128 (as_micros d)) TooLargeDuration) (\<lambda>micros.
        Inr (RetryBackoff micros)))"

definition RetryBackoff_to_pg_interval :: "RetryBackoff \<Rightarrow> pg_interval" where
  "RetryBackoff_to_pg_interval b = from_microseconds (backoff_micros b)"

definition RetryBackoff_from_pg_interval :: "pg_interval \<Rightarrow> LeaseDurationError + RetryBackoff" where
  "RetryBackoff_from_pg_interval iv =
     (if iv_months iv \<noteq> 0 \<or> iv_days iv \<noteq> 0
      then Inl (CalendarComponent (iv_months iv) (iv_days iv))
      else if iv_microseconds iv < 0 then Inl (Negative (iv_microseconds iv))
      else Inr (RetryBackoff (iv_microseconds iv)))"

definition RetryBackoff_as_duration :: "RetryBackoff \<Rightarrow> duration" where
  "RetryBackoff_as_duration b = from_micros (i64_unsigned_abs (backoff_micros b))"

definition RetryBackoff_default :: RetryBackoff where
  "RetryBackoff_default = RetryBackoff 1000000"

definition LeaseDuration_try_from :: "duration \<Rightarrow> LeaseDurationError + LeaseDuration" where
  "LeaseDuration_try_from d =
     (if subsec_nanos d mod 1000 \<noteq> 0 then Inl PrecisionLoss
      else and_then (ok_or (i64_try_from_u128 (as_micros d)) TooLargeDuration) (\<lambda>micros.
        and_then (ok_or (non_zero micros) ZeroDuration) (\<lambda>micros.
        Inr (LeaseDuration micros))))"

definition LeaseDuration_default_value :: LeaseDuration where
  "LeaseDuration_default_value = LeaseDuration 300000000"

definition LeaseDuration_to_pg_interval :: "LeaseDuration \<Rightarrow> pg_interval" where
  "LeaseDuration_to_pg_interval l = from_microseconds (lease_micros l)"

definition LeaseDuration_as_duration :: "LeaseDuration \<Rightarrow> duration" where
  "LeaseDuration_as_duration l = from_micros (i64_unsigned_abs (lease_micros l))"

definition LeaseDuration_from_pg_interval :: "pg_interval \<Rightarrow> LeaseDurationError + LeaseDuration" where
  "LeaseDuration_from_pg_interval iv =
     (if iv_months iv \<noteq> 0 \<or> iv_days iv \<noteq> 0
      then Inl (CalendarComponent (iv_months iv) (iv_days iv))
      else if iv_microseconds iv < 0 then Inl (Negative (iv_microseconds iv))
      else and_then (ok_or (non_zero (iv_microseconds iv)) ZeroDuration) (\<lambda>micros.
        Inr (LeaseDuration micros)))"

definition LeaseDuration_inv :: "LeaseDuration \<Rightarrow> bool" where
  "LeaseDuration_inv l \<longleftrightarrow> 1 \<le> lease_micros l \<and> lease_micros l \<le> i64_max"

definition RetryBackoff_inv :: "RetryBackoff \<Rightarrow> bool" where
  "RetryBackoff_inv b \<longleftrightarrow> 0 \<le> backoff_micros b \<and> backoff_micros b \<le> i64_max"

section \<open>The contract of a microsecond-exact stored duration\<close>

locale interval_codec =
  fixes micros :: "'a \<Rightarrow> int"
    and try_from :: "duration \<Rightarrow> LeaseDurationError + 'a"
    and to_pg :: "'a \<Rightarrow> pg_interval"
    and from_pg :: "pg_interval \<Rightarrow> LeaseDurationError + 'a"
    and as_duration :: "'a \<Rightarrow> duration"
    and lo :: int
  assumes lo_nonneg: "0 \<le> lo"
    and try_from_iff: "try_from d = Inr x \<longleftrightarrow>
      d_nanos d mod 1000 = 0 \<and> lo \<le> int (as_micros d) \<and> int (as_micros d) \<le> i64_max \<and>
      micros x = int (as_micros d)"
    and to_pg_eq: "to_pg x = from_microseconds (micros x)"
    and from_pg_iff: "from_pg iv = Inr x \<longleftrightarrow>
      iv_months iv = 0 \<and> iv_days iv = 0 \<and> lo \<le> iv_microseconds iv \<and> micros x = iv_microseconds iv"
    and as_duration_eq: "as_duration x = from_micros (i64_unsigned_abs (micros x))"
begin

lemma try_from_bounds: "try_from d = Inr x \<Longrightarrow> lo \<le> micros x \<and> micros x \<le> i64_max"
  by (simp add: try_from_iff)

lemma stored_roundtrip: "lo \<le> micros x \<Longrightarrow> from_pg (to_pg x) = Inr x"
  by (simp add: from_pg_iff to_pg_eq)

lemma duration_roundtrip:
  assumes d: "duration_wf d" and x: "try_from d = Inr x"
  shows "as_duration x = d"
proof (rule duration_eqI)
  have m: "micros x = int (as_micros d)" "int (as_micros d) \<le> i64_max" and n: "d_nanos d mod 1000 = 0"
    using x by (auto simp: try_from_iff)
  then have "in_i64 (micros x)" by (simp add: int_range_defs)
  then have "uint (i64_unsigned_abs (micros x)) = int (as_micros d)"
    using m by (simp add: uint_i64_unsigned_abs)
  then have "unat (i64_unsigned_abs (micros x)) = as_micros d"
    by (metis nat_int unat_eq_nat_uint)
  moreover have "as_micros d * 1000 = duration_total_nanos d"
    using n div_mult_mod_eq [of "d_nanos d" 1000]
    by (simp add: as_micros_def duration_total_nanos_def distrib_right)
  ultimately show "duration_total_nanos (as_duration x) = duration_total_nanos d"
    by (simp add: as_duration_eq from_micros_total)
  show "duration_wf (as_duration x)" by (simp add: as_duration_eq from_micros_wf)
qed (rule d)

lemma persisted_duration:
  assumes "duration_wf d" "try_from d = Inr x"
  shows "from_pg (to_pg x) = Inr x \<and> as_duration x = d \<and>
    iv_microseconds (to_pg x) * 1000 = int (duration_total_nanos d)"
proof -
  have "as_micros d * 1000 = duration_total_nanos d"
    using assms(2) div_mult_mod_eq [of "d_nanos d" 1000]
    by (simp add: try_from_iff as_micros_def duration_total_nanos_def distrib_right)
  then have "micros x * 1000 = int (duration_total_nanos d)"
    using assms(2) by (metis of_nat_mult of_nat_numeral try_from_iff)
  then show ?thesis
    using assms duration_roundtrip [OF assms] try_from_bounds [OF assms(2)]
    by (simp add: from_pg_iff to_pg_eq)
qed

end

interpretation lease: interval_codec
  lease_micros LeaseDuration_try_from LeaseDuration_to_pg_interval
  LeaseDuration_from_pg_interval LeaseDuration_as_duration 1
proof
  show "LeaseDuration_try_from d = Inr x \<longleftrightarrow>
      d_nanos d mod 1000 = 0 \<and> 1 \<le> int (as_micros d) \<and> int (as_micros d) \<le> i64_max \<and>
      lease_micros x = int (as_micros d)" for d x
    by (cases x) (auto simp: LeaseDuration_try_from_def subsec_nanos_def and_then_Inr_iff
        i64_try_from_u128_def non_zero_def split: if_splits)
  show "LeaseDuration_from_pg_interval iv = Inr x \<longleftrightarrow>
      iv_months iv = 0 \<and> iv_days iv = 0 \<and> 1 \<le> iv_microseconds iv \<and>
      lease_micros x = iv_microseconds iv" for iv x
    by (cases x) (auto simp: LeaseDuration_from_pg_interval_def and_then_Inr_iff non_zero_def
        split: if_splits)
qed (simp_all add: LeaseDuration_to_pg_interval_def LeaseDuration_as_duration_def)

interpretation backoff: interval_codec
  backoff_micros RetryBackoff_try_from RetryBackoff_to_pg_interval
  RetryBackoff_from_pg_interval RetryBackoff_as_duration 0
proof
  show "RetryBackoff_try_from d = Inr x \<longleftrightarrow>
      d_nanos d mod 1000 = 0 \<and> 0 \<le> int (as_micros d) \<and> int (as_micros d) \<le> i64_max \<and>
      backoff_micros x = int (as_micros d)" for d x
    by (cases x) (auto simp: RetryBackoff_try_from_def subsec_nanos_def and_then_Inr_iff
        i64_try_from_u128_def split: if_splits)
  show "RetryBackoff_from_pg_interval iv = Inr x \<longleftrightarrow>
      iv_months iv = 0 \<and> iv_days iv = 0 \<and> 0 \<le> iv_microseconds iv \<and>
      backoff_micros x = iv_microseconds iv" for iv x
    by (cases x) (auto simp: RetryBackoff_from_pg_interval_def split: if_splits)
qed (simp_all add: RetryBackoff_to_pg_interval_def RetryBackoff_as_duration_def)

end
