(* ===== verification/Errors.thy ===== *)
theory Errors
  imports Config_Types
begin

text \<open>
  \<^verbatim>\<open>src/src/error.rs\<close>: the crate's error types. Errors of third-party crates are carried, not
  interpreted: Diesel's error keeps the kind the schema's constraints give it and whether the server or
  the decoding of a returned row raised it, the serde and pool
  errors keep their text, and the cron text \<open>"<source>": <croner error>\<close> keeps its two parts.
\<close>

datatype DatabaseErrorKind = UniqueViolation | ForeignKeyViolation | CheckViolation | UnknownKind

datatype diesel_error =
  DatabaseError DatabaseErrorKind
| DieselNotFound
| DieselDeserialization

datatype cron_message = CronDetail rust_string rust_string | CronText rust_string

datatype CorruptJobRow =
  CorruptCron cron_message
| CorruptLeaseDuration LeaseDurationError
| CorruptMaxAttempts MaxAttemptsError

datatype DuplicateJobName = DuplicateJobName JobName

datatype RegisterError = RegisterName IdentifierError | RegisterDuplicate DuplicateJobName

datatype SchedulerError =
  Database diesel_error
| Pool rust_string
| Cron cron_message
| Config string
| Identifier IdentifierError
| Register RegisterError
| Serde rust_string
| Invariant string
| CorruptJob JobId CorruptJobRow

section \<open>Handler errors\<close>

text \<open>\<open>source\<close> is a boxed error of which only the \<open>Display\<close> text is ever used.\<close>

record JobError =
  je_source :: rust_string
  je_retryable :: bool

definition JobError_permanent :: "rust_string \<Rightarrow> JobError" where
  "JobError_permanent message = \<lparr>je_source = message, je_retryable = False\<rparr>"

definition JobError_msg :: "rust_string \<Rightarrow> JobError" where
  "JobError_msg message = JobError_permanent message"

definition JobError_retry :: "rust_string \<Rightarrow> JobError" where
  "JobError_retry message = \<lparr>je_source = message, je_retryable = True\<rparr>"

definition JobError_from :: "rust_string \<Rightarrow> JobError" where
  "JobError_from e = \<lparr>je_source = e, je_retryable = False\<rparr>"

definition JobError_is_retryable :: "JobError \<Rightarrow> bool" where
  "JobError_is_retryable e = je_retryable e"

definition JobError_to_string :: "JobError \<Rightarrow> rust_string" where
  "JobError_to_string e = je_source e"

lemmas job_error_defs = JobError_permanent_def JobError_msg_def JobError_retry_def JobError_from_def
  JobError_is_retryable_def JobError_to_string_def

end
