(* ===== verification/Cron.thy ===== *)
theory Cron
  imports Errors
begin

text \<open>
  \<^verbatim>\<open>src/src/cron.rs\<close>. The \<open>croner\<close> crate is a parameter: a record of its parser and of
  \<open>find_next_occurrence(_, false)\<close>, both fallible with the error's text. What the scheduler relies
  on is that an exclusive search returns a strictly later instant (\<open>croner_strict\<close>).
\<close>

type_synonym timestamp = int

record 'c croner =
  croner_parse :: "rust_string \<Rightarrow> rust_string + 'c"
  croner_next :: "'c \<Rightarrow> timestamp \<Rightarrow> rust_string + timestamp"

definition croner_strict :: "'c croner \<Rightarrow> bool" where
  "croner_strict cr \<longleftrightarrow> (\<forall>c t t'. croner_next cr c t = Inr t' \<longrightarrow> t < t')"

record 'c CronExpression =
  ce_source :: rust_string
  ce_schedule :: 'c

definition CronExpression_parse_inner ::
    "'c croner \<Rightarrow> rust_string \<Rightarrow> cron_message + 'c CronExpression" where
  "CronExpression_parse_inner cr source =
     and_then (map_err (\<lambda>e. CronDetail source e) (croner_parse cr source)) (\<lambda>schedule.
     Inr \<lparr>ce_source = source, ce_schedule = schedule\<rparr>)"

definition CronExpression_parse :: "'c croner \<Rightarrow> rust_string \<Rightarrow> SchedulerError + 'c CronExpression" where
  "CronExpression_parse cr source = map_err Cron (CronExpression_parse_inner cr source)"

definition CronExpression_as_str :: "'c CronExpression \<Rightarrow> rust_string" where
  "CronExpression_as_str c = ce_source c"

definition CronExpression_parse_stored ::
    "'c croner \<Rightarrow> JobId \<Rightarrow> rust_string \<Rightarrow> SchedulerError + 'c CronExpression" where
  "CronExpression_parse_stored cr job_id source =
     map_err (\<lambda>detail. CorruptJob job_id (CorruptCron detail)) (CronExpression_parse_inner cr source)"

definition CronExpression_next_after ::
    "'c croner \<Rightarrow> 'c CronExpression \<Rightarrow> timestamp \<Rightarrow> SchedulerError + timestamp" where
  "CronExpression_next_after cr c after =
     map_err (\<lambda>e. Cron (CronText e)) (croner_next cr (ce_schedule c) after)"

lemmas cron_defs = CronExpression_parse_inner_def CronExpression_parse_def
  CronExpression_parse_stored_def CronExpression_next_after_def CronExpression_as_str_def

lemma parse_inner_Inr_iff:
  "CronExpression_parse_inner cr s = Inr c \<longleftrightarrow>
     croner_parse cr s = Inr (ce_schedule c) \<and> ce_source c = s"
  by (cases c) (auto simp: CronExpression_parse_inner_def and_then_Inr_iff)

lemma parse_preserves_source: "CronExpression_parse cr s = Inr c \<Longrightarrow> CronExpression_as_str c = s"
  by (simp add: CronExpression_parse_def parse_inner_Inr_iff CronExpression_as_str_def)

lemma parse_stored_Inr_iff:
  "CronExpression_parse_stored cr j s = Inr c \<longleftrightarrow> CronExpression_parse cr s = Inr c"
  by (simp add: CronExpression_parse_stored_def CronExpression_parse_def)

lemma parse_stored_Inl:
  "CronExpression_parse_stored cr j s = Inl e \<Longrightarrow> \<exists>d. e = CorruptJob j (CorruptCron d)"
  by (cases "CronExpression_parse_inner cr s") (auto simp: CronExpression_parse_stored_def)

lemma next_after_strict:
  assumes "croner_strict cr" "CronExpression_next_after cr c t = Inr t'"
  shows "t < t'"
  using assms by (auto simp: CronExpression_next_after_def croner_strict_def)

end
