(* ===== verification/Models.thy ===== *)
theory Models
  imports Cron
begin

text \<open>
  \<^verbatim>\<open>src/src/models.rs\<close> without the configuration types: the stored state enums, the read models,
  the claim, the operation outcomes, the row structs, and the projection of a stored job row to the
  domain type \<open>Job\<close>. Columns of the same meaning carry the prefix of their struct.
  The payload \<open>serde_json::Value\<close> is a type variable: the scheduler stores and returns it unread.
\<close>

section \<open>States and outcomes\<close>

datatype StoredRunState = SPending | SRunning | SCompleted | SFailed | SCancelled

datatype StoredAttemptOutcome = ACompleted | AFailed | AExpired | ACancelled

record Lease =
  l_worker_id :: WorkerId
  l_lease_token :: LeaseToken
  l_lease_expires_at :: timestamp
  l_started_at :: timestamp

datatype RunState =
  RsPending
| RsRunning Lease
| RsCompleted timestamp
| RsFailed timestamp rust_string
| RsCancelled timestamp

datatype AttemptState =
  AsRunning
| AsCompleted
| AsFailed "rust_string option"
| AsExpired "rust_string option"
| AsCancelled

record TaskAttempt =
  t_attempt :: u32
  t_worker_id :: WorkerId
  t_started_at :: timestamp
  t_lease_expires_at :: timestamp
  t_finished_at :: "timestamp option"
  t_state :: AttemptState

record 'v ClaimedRun =
  c_run_id :: RunId
  c_job_id :: "JobId option"
  c_job_name :: JobName
  c_job_args :: 'v
  c_scheduled_for :: timestamp
  c_attempt :: u32
  c_lease_token :: LeaseToken
  c_lease_expires_at :: timestamp
  c_lease_duration :: LeaseDuration

datatype Outcome = OutCompleted | OutFailed rust_string

datatype FinalizeOutcome = FinApplied | FinFenced | FinAlreadyTerminal

datatype FailureOutcome = FlRetried timestamp | FlFailed | FlFenced | FlAlreadyTerminal

datatype RenewalOutcome = Renewed timestamp | RenewFenced

section \<open>Job rows and the domain projection\<close>

record 'v SchedulerJob =
  j_id :: JobId
  j_name :: JobName
  j_cron_expression :: rust_string
  j_job_args :: 'v
  j_next_run_at :: timestamp
  j_lease_duration :: pg_interval
  j_max_attempts :: int
  j_is_paused :: bool
  j_created_at :: timestamp
  j_updated_at :: timestamp
  j_retry_backoff :: pg_interval

record 'v NewJob =
  nj_name :: JobName
  nj_cron_expression :: rust_string
  nj_job_args :: 'v
  nj_next_run_at :: timestamp
  nj_lease_duration :: pg_interval
  nj_max_attempts :: int
  nj_is_paused :: bool
  nj_retry_backoff :: pg_interval

record 'c Job =
  job_id :: JobId
  job_name :: JobName
  job_cron :: "'c CronExpression"
  job_lease_duration :: LeaseDuration
  job_max_attempts :: MaxAttempts
  job_retry_backoff :: RetryBackoff
  job_lifecycle :: JobLifecycle
  job_next_run_at :: timestamp
  job_created_at :: timestamp
  job_updated_at :: timestamp

definition Job_try_from :: "'c croner \<Rightarrow> 'v SchedulerJob \<Rightarrow> SchedulerError + 'c Job" where
  "Job_try_from cr row =
     (let jid = j_id row in
      and_then (CronExpression_parse_stored cr jid (j_cron_expression row)) (\<lambda>cron.
      and_then (map_err (\<lambda>e. CorruptJob jid (CorruptLeaseDuration e))
                 (LeaseDuration_from_pg_interval (j_lease_duration row))) (\<lambda>lease_duration.
      and_then (map_err (\<lambda>e. CorruptJob jid (CorruptMaxAttempts e))
                 (MaxAttempts_from_db_i32 (j_max_attempts row))) (\<lambda>max_attempts.
      and_then (map_err (\<lambda>e. CorruptJob jid (CorruptLeaseDuration e))
                 (RetryBackoff_from_pg_interval (j_retry_backoff row))) (\<lambda>retry_backoff.
      Inr \<lparr>job_id = jid,
           job_name = j_name row,
           job_cron = cron,
           job_lease_duration = lease_duration,
           job_max_attempts = max_attempts,
           job_retry_backoff = retry_backoff,
           job_lifecycle = JobLifecycle_from_paused (j_is_paused row),
           job_next_run_at = j_next_run_at row,
           job_created_at = j_created_at row,
           job_updated_at = j_updated_at row\<rparr>)))))"

text \<open>A row whose stored values are the ones the scheduler writes projects without error.\<close>

lemma Job_try_from_ok:
  assumes "CronExpression_parse cr (j_cron_expression row) = Inr cron"
    and "j_lease_duration row = LeaseDuration_to_pg_interval ld" "LeaseDuration_inv ld"
    and "j_max_attempts row = MaxAttempts_to_i32 ma" "MaxAttempts_inv ma"
    and "j_retry_backoff row = RetryBackoff_to_pg_interval rb" "RetryBackoff_inv rb"
  shows "Job_try_from cr row = Inr
     \<lparr>job_id = j_id row, job_name = j_name row, job_cron = cron, job_lease_duration = ld,
      job_max_attempts = ma, job_retry_backoff = rb,
      job_lifecycle = JobLifecycle_from_paused (j_is_paused row),
      job_next_run_at = j_next_run_at row, job_created_at = j_created_at row,
      job_updated_at = j_updated_at row\<rparr>"
proof -
  have "CronExpression_parse_stored cr (j_id row) (j_cron_expression row) = Inr cron"
    using assms(1) by (simp add: parse_stored_Inr_iff)
  moreover have "LeaseDuration_from_pg_interval (j_lease_duration row) = Inr ld"
    using assms(2,3) by (simp add: lease.stored_roundtrip LeaseDuration_inv_def)
  moreover have "MaxAttempts_from_db_i32 (j_max_attempts row) = Inr ma"
    using assms(4,5) by (simp add: MaxAttempts_from_db_iff MaxAttempts_inv_def)
  moreover have "RetryBackoff_from_pg_interval (j_retry_backoff row) = Inr rb"
    using assms(6,7) by (simp add: backoff.stored_roundtrip RetryBackoff_inv_def)
  ultimately show ?thesis
    by (simp add: Job_try_from_def Let_def)
qed

text \<open>Every projection failure names the row and the offending column.\<close>

lemma Job_try_from_error:
  "Job_try_from cr row = Inl e \<Longrightarrow> \<exists>source. e = CorruptJob (j_id row) source"
  by (auto simp: Job_try_from_def Let_def and_then_Inl_iff map_err_def
      dest: parse_stored_Inl split: sum.splits)

end
