(* ===== verification/Tables.thy ===== *)
theory Tables
  imports Models
begin

text \<open>
  The database: the three tables of \<^verbatim>\<open>src/src/schema.rs\<close>, the constraints of
  \<^verbatim>\<open>src/migrations/0001_create_scheduler_tables/up.sql\<close> as executable predicates, the
  environment a transaction reads (clock, row locks held by other sessions, generated UUIDs), the
  execution of a statement, which fails and changes nothing when the tables it leaves violate the
  schema, and the decoding of the rows it returns. The cross-table invariant that the schema cannot express is the next theory's.
\<close>

section \<open>Rows\<close>

record 'v run_row =
  r_id :: RunId
  r_job_id :: "JobId option"
  r_scheduled_for :: timestamp
  r_attempt_count :: int
  r_created_at :: timestamp
  r_updated_at :: timestamp
  r_job_name :: JobName
  r_job_args :: 'v
  r_available_at :: timestamp
  r_priority :: int
  r_state :: StoredRunState
  r_max_attempts :: int
  r_lease_duration :: pg_interval
  r_retry_backoff :: pg_interval
  r_worker_id :: "WorkerId option"
  r_lease_token :: "LeaseToken option"
  r_lease_expires_at :: "timestamp option"
  r_started_at :: "timestamp option"
  r_finished_at :: "timestamp option"
  r_last_error :: "rust_string option"
  r_deduplication_key :: "DeduplicationKey option"

record attempt_row =
  a_run_id :: RunId
  a_attempt_number :: int
  a_worker_id :: WorkerId
  a_lease_token :: LeaseToken
  a_started_at :: timestamp
  a_lease_expires_at :: timestamp
  a_finished_at :: "timestamp option"
  a_outcome :: "StoredAttemptOutcome option"
  a_error :: "rust_string option"

record 'v db =
  jobs :: "'v SchedulerJob list"
  runs :: "'v run_row list"
  attempts :: "attempt_row list"

section \<open>The environment of a transaction\<close>

text \<open>
  \<open>now()\<close> is fixed for a transaction. \<open>clock_timestamp()\<close> is read anew at every
  occurrence and for every row, so its readings are a function of the occurrence and the row; no
  order between them is built in. Timestamps are microseconds since 2000-01-01 UTC. Payloads are
  values of a type parameter: whether \<open>serde_json\<close> reads the stored payload of a row back (it refuses
  more than 128 levels of nesting, which it writes without complaint) is a fact about the payload the
  environment supplies.
\<close>

datatype clock_site =
  WhereClock | StartedClock | ExpiresClock | UpdatedClock | FinishedClock | AvailableClock
| AttemptFinishedClock

record env =
  env_now :: timestamp
  env_clock :: "clock_site \<Rightarrow> RunId \<Rightarrow> timestamp"
  env_run_locked :: "RunId \<Rightarrow> bool"
  env_job_locked :: "JobId \<Rightarrow> bool"
  env_new_uuid :: uuid
  env_token :: "RunId \<Rightarrow> uuid"
  env_run_args_read :: "RunId \<Rightarrow> bool"
  env_job_args_read :: "JobId \<Rightarrow> bool"

section \<open>Column types and constraints\<close>

text \<open>The documented range of \<open>timestamptz\<close>: 4713 BC to 294276 AD.\<close>

definition pg_timestamp :: "timestamp \<Rightarrow> bool" where
  "pg_timestamp t \<longleftrightarrow> - 211813488000000000 \<le> t \<and> t < 9223371331200000000"

text \<open>
  The range of chrono's \<open>DateTime<Utc>\<close>, years -262143 to 262142: on the old side wider than that of
  \<open>timestamptz\<close>, on the new side narrower, so PostgreSQL stores times that the client cannot read.
\<close>

definition chrono_timestamp :: "timestamp \<Rightarrow> bool" where
  "chrono_timestamp t \<longleftrightarrow> - 8335547913600000000 \<le> t \<and> t < 8209320192000000000"

lemma chrono_timestampI [intro]: "pg_timestamp t \<Longrightarrow> t < 8209320192000000000 \<Longrightarrow> chrono_timestamp t"
  by (simp add: pg_timestamp_def chrono_timestamp_def)

definition env_ok :: "env \<Rightarrow> bool" where
  "env_ok env \<longleftrightarrow> pg_timestamp (env_now env) \<and> (\<forall>site r. pg_timestamp (env_clock env site r))"

lemma env_okD [simp]:
  "env_ok env \<Longrightarrow> pg_timestamp (env_now env)"
  "env_ok env \<Longrightarrow> pg_timestamp (env_clock env site r)"
  by (simp_all add: env_ok_def)

definition opt_all :: "('a \<Rightarrow> bool) \<Rightarrow> 'a option \<Rightarrow> bool" where
  "opt_all p x = (case x of None \<Rightarrow> True | Some y \<Rightarrow> p y)"

lemma opt_all_simps [simp]: "opt_all p None" "opt_all p (Some x) = p x"
  by (simp_all add: opt_all_def)

definition pg_interval_type :: "pg_interval \<Rightarrow> bool" where
  "pg_interval_type iv \<longleftrightarrow> in_i32 (iv_months iv) \<and> in_i32 (iv_days iv) \<and> in_i64 (iv_microseconds iv)"

text \<open>
  \<open>name !~ '^[[:space:]]|[[:space:]]$'\<close> with \<open>char_length\<close> between 1 and 255; the class
  \<open>[[:space:]]\<close> is the ASCII one, as \<^verbatim>\<open>ids.rs\<close> documents.
\<close>

definition pg_space :: "rust_char \<Rightarrow> bool" where
  "pg_space c \<longleftrightarrow> (9 \<le> c \<and> c \<le> 13) \<or> c = 32"

definition name_check :: "(rust_char \<Rightarrow> bool) \<Rightarrow> rust_string \<Rightarrow> bool" where
  "name_check space s \<longleftrightarrow>
     1 \<le> length s \<and> length s \<le> 255 \<and> \<not> (space (hd s) \<or> space (last s))"

definition interval_value :: "pg_interval \<Rightarrow> int" where
  "interval_value iv = (iv_months iv * 30 + iv_days iv) * 86400000000 + iv_microseconds iv"

definition extract_year :: "pg_interval \<Rightarrow> int" where
  "extract_year iv = sgn (iv_months iv) * (\<bar>iv_months iv\<bar> div 12)"

definition extract_month :: "pg_interval \<Rightarrow> int" where
  "extract_month iv = sgn (iv_months iv) * (\<bar>iv_months iv\<bar> mod 12)"

definition no_calendar_part :: "pg_interval \<Rightarrow> bool" where
  "no_calendar_part iv \<longleftrightarrow> extract_year iv = 0 \<and> extract_month iv = 0 \<and> iv_days iv = 0"

definition lease_duration_check :: "pg_interval \<Rightarrow> bool" where
  "lease_duration_check iv \<longleftrightarrow> interval_value iv > 0 \<and> no_calendar_part iv"

definition retry_backoff_check :: "pg_interval \<Rightarrow> bool" where
  "retry_backoff_check iv \<longleftrightarrow> interval_value iv \<ge> 0 \<and> no_calendar_part iv"

text \<open>
  \<open>TEXT\<close> holds every character but U+0000, which Rust's strings may contain.
\<close>

definition pg_text :: "rust_string \<Rightarrow> bool" where
  "pg_text s \<longleftrightarrow> 0 \<notin> set s"

lemma pg_text_simps [simp]: "pg_text []" "pg_text (c # s) \<longleftrightarrow> c \<noteq> 0 \<and> pg_text s"
  by (auto simp: pg_text_def)

definition run_types :: "'v run_row \<Rightarrow> bool" where
  "run_types r \<longleftrightarrow>
     pg_timestamp (r_scheduled_for r) \<and> in_i32 (r_attempt_count r) \<and>
     pg_timestamp (r_created_at r) \<and> pg_timestamp (r_updated_at r) \<and>
     pg_timestamp (r_available_at r) \<and> in_i16 (r_priority r) \<and> in_i32 (r_max_attempts r) \<and>
     pg_interval_type (r_lease_duration r) \<and> pg_interval_type (r_retry_backoff r) \<and>
     opt_all pg_timestamp (r_lease_expires_at r) \<and> opt_all pg_timestamp (r_started_at r) \<and>
     opt_all pg_timestamp (r_finished_at r) \<and> pg_text (JobName_as_str (r_job_name r)) \<and>
     opt_all (\<lambda>w. pg_text (WorkerId_as_str w)) (r_worker_id r) \<and> opt_all pg_text (r_last_error r) \<and>
     opt_all (\<lambda>k. pg_text (DeduplicationKey_as_str k)) (r_deduplication_key r)"

definition attempts_check :: "'v run_row \<Rightarrow> bool" where
  "attempts_check r \<longleftrightarrow>
     r_attempt_count r \<ge> 0 \<and> r_max_attempts r \<ge> 1 \<and> r_attempt_count r \<le> r_max_attempts r \<and>
     (r_state r \<noteq> SPending \<or> r_attempt_count r < r_max_attempts r)"

definition no_lease :: "'v run_row \<Rightarrow> bool" where
  "no_lease r \<longleftrightarrow> r_worker_id r = None \<and> r_lease_token r = None \<and>
     r_lease_expires_at r = None \<and> r_started_at r = None"

definition state_check :: "'v run_row \<Rightarrow> bool" where
  "state_check r \<longleftrightarrow>
     (case r_state r of
        SPending \<Rightarrow> no_lease r \<and> r_finished_at r = None \<and> r_last_error r = None
      | SRunning \<Rightarrow>
          r_worker_id r \<noteq> None \<and> r_lease_token r \<noteq> None \<and>
          (case (r_lease_expires_at r, r_started_at r) of
             (Some e, Some s) \<Rightarrow> e > s | _ \<Rightarrow> False) \<and>
          r_finished_at r = None \<and> r_last_error r = None
      | SCompleted \<Rightarrow> no_lease r \<and> r_finished_at r \<noteq> None \<and> r_last_error r = None
      | SFailed \<Rightarrow> no_lease r \<and> r_finished_at r \<noteq> None \<and> r_last_error r \<noteq> None
      | SCancelled \<Rightarrow> no_lease r \<and> r_finished_at r \<noteq> None \<and> r_last_error r = None)"

definition run_checks :: "'v run_row \<Rightarrow> bool" where
  "run_checks r \<longleftrightarrow>
     name_check pg_space (JobName_as_str (r_job_name r)) \<and>
     opt_all (\<lambda>w. name_check pg_space (WorkerId_as_str w)) (r_worker_id r) \<and>
     attempts_check r \<and>
     lease_duration_check (r_lease_duration r) \<and>
     retry_backoff_check (r_retry_backoff r) \<and>
     opt_all (\<lambda>k. 1 \<le> length (DeduplicationKey_as_str k) \<and>
       length (DeduplicationKey_as_str k) \<le> 255) (r_deduplication_key r) \<and>
     state_check r"

definition attempt_types :: "attempt_row \<Rightarrow> bool" where
  "attempt_types a \<longleftrightarrow>
     in_i32 (a_attempt_number a) \<and> pg_timestamp (a_started_at a) \<and>
     pg_timestamp (a_lease_expires_at a) \<and> opt_all pg_timestamp (a_finished_at a) \<and>
     pg_text (WorkerId_as_str (a_worker_id a)) \<and> opt_all pg_text (a_error a)"

definition attempt_checks :: "attempt_row \<Rightarrow> bool" where
  "attempt_checks a \<longleftrightarrow>
     a_attempt_number a \<ge> 1 \<and>
     name_check pg_space (WorkerId_as_str (a_worker_id a)) \<and>
     a_lease_expires_at a > a_started_at a \<and>
     ((a_finished_at a = None \<and> a_outcome a = None \<and> a_error a = None) \<or>
      (a_finished_at a \<noteq> None \<and> a_outcome a \<noteq> None)) \<and>
     (a_error a = None \<or> a_outcome a = Some AFailed \<or> a_outcome a = Some AExpired)"

definition job_types :: "'v SchedulerJob \<Rightarrow> bool" where
  "job_types j \<longleftrightarrow>
     pg_timestamp (j_next_run_at j) \<and> pg_interval_type (j_lease_duration j) \<and>
     in_i32 (j_max_attempts j) \<and> pg_timestamp (j_created_at j) \<and> pg_timestamp (j_updated_at j) \<and>
     pg_interval_type (j_retry_backoff j) \<and> pg_text (JobName_as_str (j_name j)) \<and>
     pg_text (j_cron_expression j)"

definition job_checks :: "'v SchedulerJob \<Rightarrow> bool" where
  "job_checks j \<longleftrightarrow>
     name_check pg_space (JobName_as_str (j_name j)) \<and>
     lease_duration_check (j_lease_duration j) \<and> j_max_attempts j \<ge> 1 \<and>
     retry_backoff_check (j_retry_backoff j)"

text \<open>The primary keys and unique indexes; a partial index covers the rows of its \<open>WHERE\<close>.\<close>

definition occurrence_key :: "'v run_row \<Rightarrow> JobId option \<times> timestamp" where
  "occurrence_key r = (r_job_id r, r_scheduled_for r)"

definition dedup_key_of :: "'v run_row \<Rightarrow> JobName \<times> DeduplicationKey option" where
  "dedup_key_of r = (r_job_name r, r_deduplication_key r)"

definition runs_unique :: "'v run_row list \<Rightarrow> bool" where
  "runs_unique t \<longleftrightarrow>
     distinct (map r_id t) \<and>
     distinct (map occurrence_key (filter (\<lambda>r. r_job_id r \<noteq> None) t)) \<and>
     distinct (map dedup_key_of (filter (\<lambda>r. r_deduplication_key r \<noteq> None) t))"

definition attempts_unique :: "attempt_row list \<Rightarrow> bool" where
  "attempts_unique t \<longleftrightarrow>
     distinct (map (\<lambda>a. (a_run_id a, a_attempt_number a)) t) \<and> distinct (map a_lease_token t)"

definition jobs_unique :: "'v SchedulerJob list \<Rightarrow> bool" where
  "jobs_unique t \<longleftrightarrow> distinct (map j_id t) \<and> distinct (map j_name t)"

definition attempts_fk :: "'v db \<Rightarrow> bool" where
  "attempts_fk db \<longleftrightarrow> (\<forall>a \<in> set (attempts db). a_run_id a \<in> r_id ` set (runs db))"

definition types_ok :: "'v db \<Rightarrow> bool" where
  "types_ok db \<longleftrightarrow> (\<forall>j \<in> set (jobs db). job_types j) \<and> (\<forall>r \<in> set (runs db). run_types r) \<and>
     (\<forall>a \<in> set (attempts db). attempt_types a)"

definition checks_ok :: "'v db \<Rightarrow> bool" where
  "checks_ok db \<longleftrightarrow> (\<forall>j \<in> set (jobs db). job_checks j) \<and> (\<forall>r \<in> set (runs db). run_checks r) \<and>
     (\<forall>a \<in> set (attempts db). attempt_checks a)"

definition unique_ok :: "'v db \<Rightarrow> bool" where
  "unique_ok db \<longleftrightarrow> jobs_unique (jobs db) \<and> runs_unique (runs db) \<and> attempts_unique (attempts db)"

definition schema_ok :: "'v db \<Rightarrow> bool" where
  "schema_ok db \<longleftrightarrow> types_ok db \<and> checks_ok db \<and> unique_ok db \<and> attempts_fk db"

section \<open>Statements and transactions\<close>

definition checked :: "'v db \<Rightarrow> SchedulerError + 'v db" where
  "checked db =
     (if \<not> types_ok db then Inl (Database (DatabaseError UnknownKind))
      else if \<not> checks_ok db then Inl (Database (DatabaseError CheckViolation))
      else if \<not> unique_ok db then Inl (Database (DatabaseError UniqueViolation))
      else if \<not> attempts_fk db then Inl (Database (DatabaseError ForeignKeyViolation))
      else Inr db)"

text \<open>
  \<open>INSERT \<dots> ON CONFLICT\<close> evaluates the column types and the row's \<open>CHECK\<close>s on the proposed row
  before it looks for a conflict, so a row that violates them is an error even when it conflicts.
\<close>

definition admit :: "bool \<Rightarrow> bool \<Rightarrow> SchedulerError + unit" where
  "admit types checks =
     (if \<not> types then Inl (Database (DatabaseError UnknownKind))
      else if \<not> checks then Inl (Database (DatabaseError CheckViolation))
      else Inr ())"

lemma admit_Inr_iff [simp]: "admit t c = Inr u \<longleftrightarrow> t \<and> c"
  by (auto simp: admit_def)

lemma admit_ok [simp]: "t \<Longrightarrow> c \<Longrightarrow> admit t c = Inr ()"
  by simp

lemma admit_Inl_database: "admit t c = Inl e \<Longrightarrow> \<exists>k. e = Database (DatabaseError k)"
  by (auto simp: admit_def split: if_splits)

text \<open>
  PostgreSQL refuses a text parameter with U+0000 when it is bound, before the statement runs, whatever
  rows the statement would have met.
\<close>

abbreviation value_error :: SchedulerError where
  "value_error \<equiv> Database (DatabaseError UnknownKind)"

definition bind_texts :: "rust_string list \<Rightarrow> SchedulerError + unit" where
  "bind_texts ts = (if \<forall>t \<in> set ts. pg_text t then Inr () else Inl value_error)"

definition opt_text :: "rust_string option \<Rightarrow> rust_string list" where
  "opt_text x = (case x of None \<Rightarrow> [] | Some t \<Rightarrow> [t])"

lemma opt_text_simps [simp]: "opt_text None = []" "opt_text (Some t) = [t]"
  by (simp_all add: opt_text_def)

lemma bind_texts_Inr_iff [simp]: "bind_texts ts = Inr u \<longleftrightarrow> (\<forall>t \<in> set ts. pg_text t)"
  by (simp add: bind_texts_def)

lemma bind_texts_ok [simp]: "\<forall>t \<in> set ts. pg_text t \<Longrightarrow> bind_texts ts = Inr ()"
  by simp

lemma bind_texts_bad: "t \<in> set ts \<Longrightarrow> \<not> pg_text t \<Longrightarrow> bind_texts ts = Inl value_error"
  by (auto simp: bind_texts_def)

lemma bind_texts_Inl_database: "bind_texts ts = Inl e \<Longrightarrow> \<exists>k. e = Database (DatabaseError k)"
  by (auto simp: bind_texts_def split: if_splits)

lemma bind_texts_cases:
  obtains (ok) "\<forall>t \<in> set ts. pg_text t" "bind_texts ts = Inr ()"
  | (bad) t where "t \<in> set ts" "\<not> pg_text t" "bind_texts ts = Inl value_error"
  using bind_texts_bad bind_texts_ok by metis

text \<open>
  A \<open>timestamptz\<close> parameter is refused in the same way when it lies outside the column type's range, which
  is narrower than chrono's before our era.
\<close>

definition bind_timestamp :: "timestamp \<Rightarrow> SchedulerError + unit" where
  "bind_timestamp t = (if pg_timestamp t then Inr () else Inl value_error)"

lemma bind_timestamp_Inr_iff [simp]: "bind_timestamp t = Inr u \<longleftrightarrow> pg_timestamp t"
  by (simp add: bind_timestamp_def)

lemma bind_timestamp_ok [simp]: "pg_timestamp t \<Longrightarrow> bind_timestamp t = Inr ()"
  by simp

lemma bind_timestamp_Inl_database: "bind_timestamp t = Inl e \<Longrightarrow> \<exists>k. e = Database (DatabaseError k)"
  by (auto simp: bind_timestamp_def split: if_splits)

text \<open>
  The other direction: a returned row is decoded by the client, after the server has executed the
  statement. Diesel answers \<open>DeserializationError\<close> for the whole result when one column of one row
  cannot be read.
\<close>

abbreviation decode_error :: SchedulerError where
  "decode_error \<equiv> Database DieselDeserialization"

definition decoded :: "bool \<Rightarrow> 'r \<Rightarrow> SchedulerError + 'r" where
  "decoded readable row = (if readable then Inr row else Inl decode_error)"

lemma decoded_simps [simp]: "decoded True row = Inr row" "decoded False row = Inl decode_error"
  by (simp_all add: decoded_def)

lemma decoded_Inr_iff [simp]: "decoded ok row = Inr row' \<longleftrightarrow> ok \<and> row' = row"
  by (auto simp: decoded_def)

lemma collect_decoded:
  "collect_results (\<lambda>row. decoded (ok row) row) rows =
     (if \<forall>row \<in> set rows. ok row then Inr rows else Inl decode_error)"
  by (induction rows) (auto simp: decoded_def)

text \<open>The errors of the database layer: a constraint or value the server refuses, or an unreadable row.\<close>

definition store_error :: "SchedulerError \<Rightarrow> bool" where
  "store_error e \<longleftrightarrow> (\<exists>k. e = Database (DatabaseError k)) \<or> e = decode_error"

lemma store_errorI [simp, intro]: "store_error (Database (DatabaseError k))" "store_error decode_error"
  by (simp_all add: store_error_def)

lemma store_error_database: "store_error e \<Longrightarrow> \<exists>d. e = Database d"
  by (auto simp: store_error_def)

text \<open>\<open>AsyncConnection::transaction\<close>: commit on \<open>Ok\<close>, roll back on \<open>Err\<close>.\<close>

definition transaction :: "'v db \<Rightarrow> SchedulerError + 'r \<times> 'v db \<Rightarrow> (SchedulerError + 'r) \<times> 'v db" where
  "transaction db body = (case body of Inl e \<Rightarrow> (Inl e, db) | Inr (x, db') \<Rightarrow> (Inr x, db'))"

lemma checked_Inr_iff [simp]: "checked db = Inr db' \<longleftrightarrow> schema_ok db \<and> db' = db"
  by (auto simp: checked_def schema_ok_def)

lemma checked_Inl_iff: "(\<exists>e. checked db = Inl e) \<longleftrightarrow> \<not> schema_ok db"
  by (auto simp: checked_def schema_ok_def)

lemma checked_ok [simp]: "schema_ok db \<Longrightarrow> checked db = Inr db"
  by simp

lemma checked_Inl_database: "checked db = Inl e \<Longrightarrow> \<exists>k. e = Database (DatabaseError k)"
  by (auto simp: checked_def split: if_splits)

lemma checked_cases:
  obtains (ok) "schema_ok db" "checked db = Inr db"
  | (bad) k where "checked db = Inl (Database (DatabaseError k))"
  using checked_Inl_database checked_Inl_iff checked_ok by metis

lemma transaction_Inr_iff: "transaction db body = (Inr x, db') \<longleftrightarrow> body = Inr (x, db')"
  by (auto simp: transaction_def split: sum.splits)

lemma transaction_Inl_iff: "transaction db body = (Inl e, db') \<longleftrightarrow> body = Inl e \<and> db' = db"
  by (auto simp: transaction_def split: sum.splits)

lemma transaction_cases:
  obtains (Err) e where "body = Inl e" "transaction db body = (Inl e, db)"
  | (Ok) x db' where "body = Inr (x, db')" "transaction db body = (Inr x, db')"
  by (cases body) (auto simp: transaction_def split: prod.splits)

end
