(* ===== verification/Invariants.thy ===== *)
theory Invariants
  imports Tables
begin

text \<open>
  The cross-table invariant of \<^verbatim>\<open>docs/SchedulerDesign.md\<close> (a running task has a positive attempt
  count and exactly one open attempt row, which the schema's row-local checks cannot express), and
  the lemmas that carry it and the schema through the forms of update the operations use:
  closing leases, renewing one, claiming, quiet updates, insertion and deletion.
\<close>

section \<open>The invariant\<close>

definition open_attempt :: "attempt_row \<Rightarrow> bool" where
  "open_attempt a \<longleftrightarrow> a_outcome a = None"

text \<open>An open attempt repeats the lease of its running task.\<close>

definition mirrors :: "'v run_row \<Rightarrow> attempt_row \<Rightarrow> bool" where
  "mirrors r a \<longleftrightarrow>
     r_state r = SRunning \<and> a_run_id a = r_id r \<and> a_attempt_number a = r_attempt_count r \<and>
     r_lease_token r = Some (a_lease_token a) \<and> r_worker_id r = Some (a_worker_id a) \<and>
     r_started_at r = Some (a_started_at a) \<and> r_lease_expires_at r = Some (a_lease_expires_at a)"

definition attempt_keys :: "attempt_row list \<Rightarrow> (RunId \<times> int) set" where
  "attempt_keys t = (\<lambda>a. (a_run_id a, a_attempt_number a)) ` set t"

text \<open>
  Every running task has an open attempt that mirrors it, every open attempt mirrors a running
  task, and the attempts of a task are numbered from 1 to its attempt count.
\<close>

definition attempts_inv :: "'v run_row list \<Rightarrow> attempt_row list \<Rightarrow> bool" where
  "attempts_inv rs as \<longleftrightarrow>
     (\<forall>r \<in> set rs. r_state r = SRunning \<longrightarrow> (\<exists>a \<in> set as. open_attempt a \<and> mirrors r a)) \<and>
     (\<forall>a \<in> set as. open_attempt a \<longrightarrow> (\<exists>r \<in> set rs. mirrors r a)) \<and>
     (\<forall>r \<in> set rs. \<forall>n. (r_id r, n) \<in> attempt_keys as \<longleftrightarrow> 1 \<le> n \<and> n \<le> r_attempt_count r)"

definition db_inv :: "'v db \<Rightarrow> bool" where
  "db_inv db \<longleftrightarrow> schema_ok db \<and> attempts_inv (runs db) (attempts db)"

lemma attempts_invI [intro?]:
  assumes "\<And>r. r \<in> set rs \<Longrightarrow> r_state r = SRunning \<Longrightarrow> \<exists>a \<in> set as. open_attempt a \<and> mirrors r a"
    and "\<And>a. a \<in> set as \<Longrightarrow> open_attempt a \<Longrightarrow> \<exists>r \<in> set rs. mirrors r a"
    and "\<And>r n. r \<in> set rs \<Longrightarrow> (r_id r, n) \<in> attempt_keys as \<longleftrightarrow> 1 \<le> n \<and> n \<le> r_attempt_count r"
  shows "attempts_inv rs as"
  using assms by (simp add: attempts_inv_def)

lemma attempts_invD:
  assumes "attempts_inv rs as"
  shows "r \<in> set rs \<Longrightarrow> r_state r = SRunning \<Longrightarrow> \<exists>a \<in> set as. open_attempt a \<and> mirrors r a"
    and "a \<in> set as \<Longrightarrow> open_attempt a \<Longrightarrow> \<exists>r \<in> set rs. mirrors r a"
    and "r \<in> set rs \<Longrightarrow> (r_id r, n) \<in> attempt_keys as \<longleftrightarrow> 1 \<le> n \<and> n \<le> r_attempt_count r"
  using assms by (auto simp: attempts_inv_def)

text \<open>The empty database, as the migration leaves it.\<close>

definition empty_db :: "'v db" where
  "empty_db = \<lparr>jobs = [], runs = [], attempts = []\<rparr>"

lemma db_inv_empty: "db_inv empty_db"
  by (simp add: db_inv_def empty_db_def schema_ok_def types_ok_def checks_ok_def unique_ok_def
      jobs_unique_def runs_unique_def attempts_unique_def attempts_fk_def attempts_inv_def)

section \<open>Consequences\<close>

lemma runs_distinct: "schema_ok db \<Longrightarrow> distinct (map r_id (runs db))"
  by (simp add: schema_ok_def unique_ok_def runs_unique_def)

lemma tokens_distinct: "schema_ok db \<Longrightarrow> distinct (map a_lease_token (attempts db))"
  by (simp add: schema_ok_def unique_ok_def attempts_unique_def)

lemma schema_run: "schema_ok db \<Longrightarrow> r \<in> set (runs db) \<Longrightarrow> run_types r \<and> run_checks r"
  by (simp add: schema_ok_def types_ok_def checks_ok_def)

lemma schema_attempt: "schema_ok db \<Longrightarrow> a \<in> set (attempts db) \<Longrightarrow> attempt_types a \<and> attempt_checks a"
  by (simp add: schema_ok_def types_ok_def checks_ok_def)

lemma schema_job: "schema_ok db \<Longrightarrow> j \<in> set (jobs db) \<Longrightarrow> job_types j \<and> job_checks j"
  by (simp add: schema_ok_def types_ok_def checks_ok_def)

text \<open>The tasks' key is their id, the open attempts' keys are the lease token and the task.\<close>

lemma run_eqI:
  "schema_ok db \<Longrightarrow> r \<in> set (runs db) \<Longrightarrow> s \<in> set (runs db) \<Longrightarrow> r_id r = r_id s \<Longrightarrow> r = s"
  by (rule distinct_key_eq [OF runs_distinct])

lemma open_attempt_of_run:
  assumes inv: "db_inv db"
    and r: "r \<in> set (runs db)" "r_state r = SRunning" "r_lease_token r = Some tok"
    and a: "a \<in> set (attempts db)" "open_attempt a"
  shows "a_lease_token a = tok \<longleftrightarrow> a_run_id a = r_id r"
proof -
  have sch: "schema_ok db" and ai: "attempts_inv (runs db) (attempts db)"
    using inv by (auto simp: db_inv_def)
  obtain a' where a': "a' \<in> set (attempts db)" "mirrors r a'"
    using attempts_invD(1) [OF ai r(1,2)] by blast
  obtain r' where r': "r' \<in> set (runs db)" "mirrors r' a"
    using attempts_invD(2) [OF ai a] by blast
  show ?thesis
  proof
    assume "a_lease_token a = tok"
    then have "a_lease_token a = a_lease_token a'"
      using a'(2) r(3) by (simp add: mirrors_def)
    then have "a = a'"
      using tokens_distinct [OF sch] a(1) a'(1) by (rule distinct_key_eq [rotated -1])
    then show "a_run_id a = r_id r" using a'(2) by (simp add: mirrors_def)
  next
    assume "a_run_id a = r_id r"
    then have "r' = r" using run_eqI [OF sch r'(1) r(1)] r'(2) by (simp add: mirrors_def)
    then show "a_lease_token a = tok" using r'(2) r(3) by (simp add: mirrors_def)
  qed
qed

lemma one_open_attempt:
  assumes inv: "db_inv db"
    and r: "r \<in> set (runs db)" "r_state r = SRunning" "r_lease_token r = Some tok"
  shows "length (filter (\<lambda>a. a_lease_token a = tok \<and> open_attempt a) (attempts db)) = 1"
proof -
  have sch: "schema_ok db" and ai: "attempts_inv (runs db) (attempts db)"
    using inv by (auto simp: db_inv_def)
  obtain a where a: "a \<in> set (attempts db)" "open_attempt a" "a_lease_token a = tok"
    using attempts_invD(1) [OF ai r(1,2)] r(3) by (auto simp: mirrors_def)
  let ?f = "filter (\<lambda>a. a_lease_token a = tok \<and> open_attempt a) (attempts db)"
  have "set ?f = {a}"
    using a distinct_key_eq [OF tokens_distinct [OF sch]] by auto
  moreover have "distinct ?f"
    using tokens_distinct [OF sch] by (simp add: distinct_map)
  ultimately show ?thesis
    by (metis One_nat_def card_1_singleton_iff distinct_card)
qed

lemma running_iff_open:
  assumes inv: "db_inv db" and r: "r \<in> set (runs db)"
  shows "r_state r = SRunning \<longleftrightarrow> (\<exists>a \<in> set (attempts db). a_run_id a = r_id r \<and> open_attempt a)"
proof
  have ai: "attempts_inv (runs db) (attempts db)" using inv by (simp add: db_inv_def)
  show "\<exists>a \<in> set (attempts db). a_run_id a = r_id r \<and> open_attempt a" if "r_state r = SRunning"
    using attempts_invD(1) [OF ai r that] by (auto simp: mirrors_def)
  assume "\<exists>a \<in> set (attempts db). a_run_id a = r_id r \<and> open_attempt a"
  then obtain a where a: "a \<in> set (attempts db)" "a_run_id a = r_id r" "open_attempt a" by blast
  obtain r' where r': "r' \<in> set (runs db)" "mirrors r' a" using attempts_invD(2) [OF ai a(1,3)] by blast
  then have "r' = r" using a(2) inv by (intro run_eqI [OF _ _ r]) (simp_all add: mirrors_def db_inv_def)
  with r'(2) show "r_state r = SRunning" by (simp add: mirrors_def)
qed

lemma running_positive:
  assumes "db_inv db" "r \<in> set (runs db)" "r_state r = SRunning"
  shows "1 \<le> r_attempt_count r"
proof -
  have ai: "attempts_inv (runs db) (attempts db)" using assms(1) by (simp add: db_inv_def)
  obtain a where "a \<in> set (attempts db)" "mirrors r a"
    using attempts_invD(1) [OF ai assms(2,3)] by blast
  then have "(r_id r, r_attempt_count r) \<in> attempt_keys (attempts db)"
    by (force simp: attempt_keys_def mirrors_def)
  then show ?thesis using attempts_invD(3) [OF ai assms(2)] by simp
qed

section \<open>Carrying the attempt invariant through updates\<close>

lemma attempt_keys_update_where:
  assumes "\<And>a. a \<in> set as \<Longrightarrow> p a \<Longrightarrow> a_run_id (g a) = a_run_id a \<and> a_attempt_number (g a) = a_attempt_number a"
  shows "attempt_keys (update_where p g as) = attempt_keys as"
proof -
  have "map (\<lambda>a. (a_run_id a, a_attempt_number a)) (update_where p g as) =
      map (\<lambda>a. (a_run_id a, a_attempt_number a)) as"
    by (rule map_key_update_where) (simp add: assms)
  then show ?thesis unfolding attempt_keys_def by (metis image_set)
qed

text \<open>Closing: tasks \<open>S\<close> leave the running state and their open attempts are closed.\<close>

lemma attempts_inv_close:
  assumes inv: "attempts_inv rs as"
    and f: "\<And>r. r \<in> set rs \<Longrightarrow> r_id r \<in> S \<Longrightarrow>
      r_id (f r) = r_id r \<and> r_attempt_count (f r) = r_attempt_count r \<and> r_state (f r) \<noteq> SRunning"
    and g: "\<And>a. a \<in> set as \<Longrightarrow>
      a_run_id (g a) = a_run_id a \<and> a_attempt_number (g a) = a_attempt_number a \<and> \<not> open_attempt (g a)"
  shows "attempts_inv (update_where (\<lambda>r. r_id r \<in> S) f rs)
      (update_where (\<lambda>a. a_run_id a \<in> S \<and> open_attempt a) g as)"
    (is "attempts_inv ?rs ?as")
proof
  fix r assume r: "r \<in> set ?rs" "r_state r = SRunning"
  then have r': "r \<in> set rs" "r_id r \<notin> S" using f by (auto simp: set_update_where)
  then obtain a where a: "a \<in> set as" "open_attempt a" "mirrors r a"
    using attempts_invD(1) [OF inv _ r(2)] by blast
  then have "a \<in> set ?as" using r'(2) by (auto simp: set_update_where mirrors_def)
  with a show "\<exists>a \<in> set ?as. open_attempt a \<and> mirrors r a" by blast
next
  fix a assume a: "a \<in> set ?as" "open_attempt a"
  then have a': "a \<in> set as" "a_run_id a \<notin> S" using g by (auto simp: set_update_where)
  then obtain r where r: "r \<in> set rs" "mirrors r a" using attempts_invD(2) [OF inv _ a(2)] by blast
  then have "r \<in> set ?rs" using a'(2) by (auto simp: set_update_where mirrors_def)
  with r show "\<exists>r \<in> set ?rs. mirrors r a" by blast
next
  fix r n assume "r \<in> set ?rs"
  then obtain r0 where "r0 \<in> set rs" "r_id r = r_id r0" "r_attempt_count r = r_attempt_count r0"
    using f by (auto simp: set_update_where)
  then show "(r_id r, n) \<in> attempt_keys ?as \<longleftrightarrow> 1 \<le> n \<and> n \<le> r_attempt_count r"
    using attempts_invD(3) [OF inv, of r0 n] g by (simp add: attempt_keys_update_where)
qed

text \<open>Updates that do not touch running tasks.\<close>

lemma attempts_inv_quiet:
  assumes inv: "attempts_inv rs as"
    and f: "\<And>r. r \<in> set rs \<Longrightarrow> p r \<Longrightarrow>
      r_state r \<noteq> SRunning \<and> r_state (f r) \<noteq> SRunning \<and>
      r_id (f r) = r_id r \<and> r_attempt_count (f r) = r_attempt_count r"
  shows "attempts_inv (update_where p f rs) as"
proof
  fix r assume "r \<in> set (update_where p f rs)" "r_state r = SRunning"
  then show "\<exists>a \<in> set as. open_attempt a \<and> mirrors r a"
    using f attempts_invD(1) [OF inv] by (auto simp: set_update_where)
next
  fix a assume "a \<in> set as" "open_attempt a"
  then obtain r where "r \<in> set rs" "mirrors r a" using attempts_invD(2) [OF inv] by blast
  then show "\<exists>r \<in> set (update_where p f rs). mirrors r a"
    using f by (auto simp: set_update_where mirrors_def)
next
  fix r n assume "r \<in> set (update_where p f rs)"
  then obtain r0 where "r0 \<in> set rs" "r_id r = r_id r0" "r_attempt_count r = r_attempt_count r0"
    using f by (auto simp: set_update_where)
  then show "(r_id r, n) \<in> attempt_keys as \<longleftrightarrow> 1 \<le> n \<and> n \<le> r_attempt_count r"
    using attempts_invD(3) [OF inv, of r0 n] by simp
qed

text \<open>Renewal: a running task and its attempt change their lease together.\<close>

lemma attempts_inv_renew:
  assumes inv: "attempts_inv rs as"
    and f: "\<And>r a. r \<in> set rs \<Longrightarrow> a \<in> set as \<Longrightarrow> mirrors r a \<Longrightarrow> open_attempt a \<Longrightarrow>
      p r = q a \<and> (p r \<longrightarrow> mirrors (f r) (g a) \<and> open_attempt (g a))"
    and keys: "\<And>r. r \<in> set rs \<Longrightarrow> p r \<Longrightarrow> r_state r = SRunning \<and>
      r_id (f r) = r_id r \<and> r_attempt_count (f r) = r_attempt_count r"
      "\<And>a. a \<in> set as \<Longrightarrow> q a \<Longrightarrow> open_attempt a \<and>
      a_run_id (g a) = a_run_id a \<and> a_attempt_number (g a) = a_attempt_number a"
  shows "attempts_inv (update_where p f rs) (update_where q g as)"
    (is "attempts_inv ?rs ?as")
proof
  fix r' assume r': "r' \<in> set ?rs" "r_state r' = SRunning"
  then obtain r where r: "r \<in> set rs" "r' = (if p r then f r else r)"
    by (auto simp: update_where_def)
  then have "r_state r = SRunning" using keys(1) r' by (auto split: if_splits)
  then obtain a where a: "a \<in> set as" "open_attempt a" "mirrors r a"
    using attempts_invD(1) [OF inv r(1)] by blast
  then have "(if q a then g a else a) \<in> set ?as" by (auto simp: update_where_def)
  moreover have "open_attempt (if q a then g a else a) \<and> mirrors r' (if q a then g a else a)"
    using f [OF r(1) a(1,3,2)] a r(2) by auto
  ultimately show "\<exists>a \<in> set ?as. open_attempt a \<and> mirrors r' a" by blast
next
  fix a' assume a': "a' \<in> set ?as" "open_attempt a'"
  then obtain a where a: "a \<in> set as" "a' = (if q a then g a else a)"
    by (auto simp: update_where_def)
  then have op: "open_attempt a" using keys(2) a' by (auto split: if_splits)
  then obtain r where r: "r \<in> set rs" "mirrors r a"
    using attempts_invD(2) [OF inv a(1)] by blast
  then have "(if p r then f r else r) \<in> set ?rs" by (auto simp: update_where_def)
  moreover have "mirrors (if p r then f r else r) a'"
    using f [OF r(1) a(1) r(2) op] r a(2) by auto
  ultimately show "\<exists>r \<in> set ?rs. mirrors r a'" by blast
next
  fix r n assume "r \<in> set ?rs"
  then obtain r0 where "r0 \<in> set rs" "r_id r = r_id r0" "r_attempt_count r = r_attempt_count r0"
    using keys(1) by (auto simp: set_update_where)
  then show "(r_id r, n) \<in> attempt_keys ?as \<longleftrightarrow> 1 \<le> n \<and> n \<le> r_attempt_count r"
    using attempts_invD(3) [OF inv, of r0 n] keys(2) by (simp add: attempt_keys_update_where)
qed

text \<open>Claiming: idle tasks \<open>S\<close> start running, and one attempt is recorded for each.\<close>

lemma attempts_inv_claim:
  assumes inv: "attempts_inv rs as" and dist: "distinct (map r_id rs)"
    and f: "\<And>r. r \<in> set rs \<Longrightarrow> r_id r \<in> S \<Longrightarrow>
      r_state r \<noteq> SRunning \<and> 0 \<le> r_attempt_count r \<and> r_id (f r) = r_id r \<and>
      r_attempt_count (f r) = r_attempt_count r + 1 \<and> mirrors (f r) (n r) \<and> open_attempt (n r)"
    and cs: "set cs = {r \<in> set rs. r_id r \<in> S}"
  shows "attempts_inv (update_where (\<lambda>r. r_id r \<in> S) f rs) (as @ map n cs)"
    (is "attempts_inv ?rs ?as")
proof
  fix r assume r: "r \<in> set ?rs" "r_state r = SRunning"
  then consider "r \<in> set rs" "r_id r \<notin> S" | r0 where "r0 \<in> set rs" "r_id r0 \<in> S" "r = f r0"
    by (auto simp: set_update_where)
  then show "\<exists>a \<in> set ?as. open_attempt a \<and> mirrors r a"
  proof cases
    case 1
    then show ?thesis using attempts_invD(1) [OF inv _ r(2)] by auto
  next
    case 2
    then show ?thesis using f cs by (intro bexI [of _ "n r0"]) auto
  qed
next
  fix a assume a: "a \<in> set ?as" "open_attempt a"
  then consider "a \<in> set as" | r where "r \<in> set rs" "r_id r \<in> S" "a = n r" using cs by auto
  then show "\<exists>r \<in> set ?rs. mirrors r a"
  proof cases
    case 1
    then obtain r where r: "r \<in> set rs" "mirrors r a" using attempts_invD(2) [OF inv _ a(2)] by blast
    then have "r_id r \<notin> S" using f [OF r(1)] by (auto simp: mirrors_def)
    then show ?thesis using r by (auto simp: set_update_where)
  next
    case 2
    then show ?thesis using f by (auto simp: set_update_where)
  qed
next
  have keys_n: "attempt_keys (map n cs) = (\<lambda>r. (r_id r, r_attempt_count r + 1)) ` {r \<in> set rs. r_id r \<in> S}"
    using f cs by (force simp: attempt_keys_def mirrors_def)
  have keys: "attempt_keys ?as = attempt_keys as \<union> attempt_keys (map n cs)"
    by (auto simp: attempt_keys_def)
  fix r k assume "r \<in> set ?rs"
  then consider "r \<in> set rs" "r_id r \<notin> S" | r0 where "r0 \<in> set rs" "r_id r0 \<in> S" "r = f r0"
    by (auto simp: set_update_where)
  then show "(r_id r, k) \<in> attempt_keys ?as \<longleftrightarrow> 1 \<le> k \<and> k \<le> r_attempt_count r"
  proof cases
    case 1
    then show ?thesis using attempts_invD(3) [OF inv, of r k] by (auto simp: keys keys_n)
  next
    case 2
    have "(r_id r0, k) \<in> attempt_keys (map n cs) \<longleftrightarrow> k = r_attempt_count r0 + 1"
      using 2(1,2) distinct_key_eq [OF dist] by (auto simp: keys_n)
    then show ?thesis
      using attempts_invD(3) [OF inv 2(1), of k] f [OF 2(1,2)] 2(3) by (auto simp: keys)
  qed
qed

text \<open>Insertion of a fresh task that is not running.\<close>

lemma attempts_inv_insert:
  assumes inv: "attempts_inv rs as"
    and "r_state r \<noteq> SRunning" "r_attempt_count r = 0" "r_id r \<notin> a_run_id ` set as"
  shows "attempts_inv (rs @ [r]) as"
proof
  fix s k assume "s \<in> set (rs @ [r])"
  moreover have "(r_id r, k) \<notin> attempt_keys as"
    using assms(4) by (auto simp: attempt_keys_def)
  ultimately show "(r_id s, k) \<in> attempt_keys as \<longleftrightarrow> 1 \<le> k \<and> k \<le> r_attempt_count s"
    using attempts_invD(3) [OF inv, of s k] assms(3) by auto
qed (use assms(2) attempts_invD(1,2) [OF inv] in auto)

text \<open>Deletion of tasks that are not running, together with their attempts.\<close>

lemma attempts_inv_delete:
  assumes inv: "attempts_inv rs as"
    and idle: "\<And>r. r \<in> set rs \<Longrightarrow> r_id r \<in> S \<Longrightarrow> r_state r \<noteq> SRunning"
  shows "attempts_inv (filter (\<lambda>r. r_id r \<notin> S) rs) (filter (\<lambda>a. a_run_id a \<notin> S) as)"
proof
  fix r assume "r \<in> set (filter (\<lambda>r. r_id r \<notin> S) rs)" "r_state r = SRunning"
  then show "\<exists>a \<in> set (filter (\<lambda>a. a_run_id a \<notin> S) as). open_attempt a \<and> mirrors r a"
    using attempts_invD(1) [OF inv, of r] by (auto simp: mirrors_def)
next
  fix a assume "a \<in> set (filter (\<lambda>a. a_run_id a \<notin> S) as)" "open_attempt a"
  then show "\<exists>r \<in> set (filter (\<lambda>r. r_id r \<notin> S) rs). mirrors r a"
    using attempts_invD(2) [OF inv, of a] by (auto simp: mirrors_def)
next
  fix r k assume "r \<in> set (filter (\<lambda>r. r_id r \<notin> S) rs)"
  then show "(r_id r, k) \<in> attempt_keys (filter (\<lambda>a. a_run_id a \<notin> S) as) \<longleftrightarrow>
      1 \<le> k \<and> k \<le> r_attempt_count r"
    using attempts_invD(3) [OF inv, of r k] by (auto simp: attempt_keys_def)
qed

text \<open>
  The form the worker-owned transitions and cancellation use: the statement on tasks selects the one
  running task by its key, the statement on attempts selects open attempts by the lease token.
\<close>

lemma attempts_inv_close_one:
  assumes inv: "db_inv db"
    and r: "r \<in> set (runs db)" "r_state r = SRunning" "r_lease_token r = Some tok"
    and p: "\<And>x. x \<in> set (runs db) \<Longrightarrow> p x \<longleftrightarrow> x = r"
    and f: "r_id (f r) = r_id r" "r_attempt_count (f r) = r_attempt_count r" "r_state (f r) \<noteq> SRunning"
    and g: "\<And>a. a_run_id (g a) = a_run_id a \<and> a_attempt_number (g a) = a_attempt_number a \<and>
      \<not> open_attempt (g a)"
  shows "attempts_inv (update_where p f (runs db))
      (update_where (\<lambda>a. a_lease_token a = tok \<and> open_attempt a) g (attempts db))"
proof -
  have sch: "schema_ok db" using inv by (simp add: db_inv_def)
  have "update_where p f (runs db) = update_where (\<lambda>x. r_id x \<in> {r_id r}) f (runs db)"
    using p run_eqI [OF sch _ r(1)] by (intro update_where_cong) auto
  moreover have "update_where (\<lambda>a. a_lease_token a = tok \<and> open_attempt a) g (attempts db) =
      update_where (\<lambda>a. a_run_id a \<in> {r_id r} \<and> open_attempt a) g (attempts db)"
    using open_attempt_of_run [OF inv r] by (intro update_where_cong) auto
  moreover have "attempts_inv (update_where (\<lambda>x. r_id x \<in> {r_id r}) f (runs db))
      (update_where (\<lambda>a. a_run_id a \<in> {r_id r} \<and> open_attempt a) g (attempts db))"
    using inv f g run_eqI [OF sch _ r(1)]
    by (intro attempts_inv_close) (auto simp: db_inv_def)
  ultimately show ?thesis by simp
qed

section \<open>Carrying the schema through updates\<close>

lemma schema_update_runs:
  assumes sch: "schema_ok db"
    and f: "\<And>r. r \<in> set (runs db) \<Longrightarrow> p r \<Longrightarrow> run_types (f r) \<and> run_checks (f r) \<and>
      r_id (f r) = r_id r \<and> r_job_id (f r) = r_job_id r \<and> r_scheduled_for (f r) = r_scheduled_for r \<and>
      r_job_name (f r) = r_job_name r \<and> r_deduplication_key (f r) = r_deduplication_key r"
  shows "schema_ok (db\<lparr>runs := update_where p f (runs db)\<rparr>)"
proof -
  let ?t = "update_where p f (runs db)"
  have ids: "map r_id ?t = map r_id (runs db)"
    by (rule map_key_update_where) (simp add: f)
  have occ: "map occurrence_key (filter (\<lambda>r. r_job_id r \<noteq> None) ?t) =
      map occurrence_key (filter (\<lambda>r. r_job_id r \<noteq> None) (runs db))"
    by (rule filter_map_key_update_where) (simp_all add: f occurrence_key_def)
  have ded: "map dedup_key_of (filter (\<lambda>r. r_deduplication_key r \<noteq> None) ?t) =
      map dedup_key_of (filter (\<lambda>r. r_deduplication_key r \<noteq> None) (runs db))"
    by (rule filter_map_key_update_where) (simp_all add: f dedup_key_of_def)
  have "r_id ` set ?t = r_id ` set (runs db)"
    using ids by (metis image_set)
  moreover have "\<forall>r \<in> set ?t. run_types r" "\<forall>r \<in> set ?t. run_checks r"
    using f schema_run [OF sch] by (auto simp: ball_update_where)
  moreover have "runs_unique ?t"
    using sch unfolding schema_ok_def unique_ok_def runs_unique_def ids occ ded by blast
  ultimately show ?thesis
    using sch by (simp add: schema_ok_def types_ok_def checks_ok_def unique_ok_def attempts_fk_def)
qed

lemma schema_update_attempts:
  assumes sch: "schema_ok db"
    and g: "\<And>a. a \<in> set (attempts db) \<Longrightarrow> q a \<Longrightarrow> attempt_types (g a) \<and> attempt_checks (g a) \<and>
      a_run_id (g a) = a_run_id a \<and> a_attempt_number (g a) = a_attempt_number a \<and>
      a_lease_token (g a) = a_lease_token a"
  shows "schema_ok (db\<lparr>attempts := update_where q g (attempts db)\<rparr>)"
proof -
  let ?t = "update_where q g (attempts db)"
  have "map (\<lambda>a. (a_run_id a, a_attempt_number a)) ?t =
      map (\<lambda>a. (a_run_id a, a_attempt_number a)) (attempts db)"
    by (rule map_key_update_where) (simp add: g)
  moreover have "map a_lease_token ?t = map a_lease_token (attempts db)"
    by (rule map_key_update_where) (simp add: g)
  moreover have "\<forall>a \<in> set ?t. attempt_types a" "\<forall>a \<in> set ?t. attempt_checks a"
    using g schema_attempt [OF sch] by (auto simp: ball_update_where)
  moreover have "\<forall>a \<in> set ?t. a_run_id a \<in> r_id ` set (runs db)"
    using g sch by (auto simp: ball_update_where schema_ok_def attempts_fk_def)
  ultimately show ?thesis
    using sch by (simp add: schema_ok_def types_ok_def checks_ok_def unique_ok_def
        attempts_unique_def attempts_fk_def)
qed

lemma schema_insert_attempts:
  assumes sch: "schema_ok db"
    and new: "\<And>a. a \<in> set as \<Longrightarrow> attempt_types a \<and> attempt_checks a \<and>
      a_run_id a \<in> r_id ` set (runs db) \<and>
      (a_run_id a, a_attempt_number a) \<notin> attempt_keys (attempts db) \<and>
      a_lease_token a \<notin> a_lease_token ` set (attempts db)"
    and dist: "distinct (map a_run_id as)" "distinct (map a_lease_token as)"
  shows "schema_ok (db\<lparr>attempts := attempts db @ as\<rparr>)"
proof -
  have "distinct (map (\<lambda>a. (a_run_id a, a_attempt_number a)) as)"
    using dist(1) by (auto simp: distinct_map intro!: inj_onI dest: inj_onD)
  moreover have "attempt_keys (attempts db) \<inter> (\<lambda>a. (a_run_id a, a_attempt_number a)) ` set as = {}"
    and "a_lease_token ` set (attempts db) \<inter> a_lease_token ` set as = {}"
    using new by (simp_all add: disjoint_iff image_iff) (blast | metis)+
  ultimately have "attempts_unique (attempts db @ as)"
    using sch dist(2)
    by (simp add: schema_ok_def unique_ok_def attempts_unique_def attempt_keys_def)
  then show ?thesis
    using sch new
    by (auto simp: schema_ok_def types_ok_def checks_ok_def unique_ok_def attempts_fk_def)
qed

lemma schema_insert_run:
  assumes sch: "schema_ok db" and "run_types r" "run_checks r" "r_id r \<notin> r_id ` set (runs db)"
    and "r_job_id r \<noteq> None \<Longrightarrow> occurrence_key r \<notin> occurrence_key ` set (runs db)"
    and "r_deduplication_key r \<noteq> None \<Longrightarrow> dedup_key_of r \<notin> dedup_key_of ` set (runs db)"
  shows "schema_ok (db\<lparr>runs := runs db @ [r]\<rparr>)"
  using assms
  by (auto simp: schema_ok_def types_ok_def checks_ok_def unique_ok_def runs_unique_def attempts_fk_def)

lemma schema_delete_runs:
  assumes sch: "schema_ok db"
  shows "schema_ok (db\<lparr>runs := filter (\<lambda>r. r_id r \<notin> S) (runs db),
      attempts := filter (\<lambda>a. a_run_id a \<notin> S) (attempts db)\<rparr>)"
proof -
  have "runs_unique (filter (\<lambda>r. r_id r \<notin> S) (runs db))"
    using sch distinct_filter_key [of occurrence_key "filter (\<lambda>r. r_job_id r \<noteq> None) (runs db)"]
      distinct_filter_key [of dedup_key_of "filter (\<lambda>r. r_deduplication_key r \<noteq> None) (runs db)"]
    by (auto simp: schema_ok_def unique_ok_def runs_unique_def distinct_map_filter conj_commute)
  moreover have "attempts_unique (filter (\<lambda>a. a_run_id a \<notin> S) (attempts db))"
    using sch by (auto simp: schema_ok_def unique_ok_def attempts_unique_def distinct_map_filter)
  ultimately show ?thesis
    using sch by (auto simp: schema_ok_def types_ok_def checks_ok_def unique_ok_def attempts_fk_def)
qed

text \<open>What the lease checks mean for the stored intervals.\<close>

lemma no_calendar_part_iff: "no_calendar_part iv \<longleftrightarrow> iv_months iv = 0 \<and> iv_days iv = 0"
proof -
  have "\<bar>m\<bar> div 12 = 0 \<and> \<bar>m\<bar> mod 12 = 0 \<longleftrightarrow> m = 0" for m :: int
    using div_mult_mod_eq [of "\<bar>m\<bar>" 12] by auto
  from this [of "iv_months iv"] show ?thesis
    by (auto simp: no_calendar_part_def extract_year_def extract_month_def sgn_eq_0_iff)
qed

lemma lease_duration_check_iff:
  "lease_duration_check iv \<longleftrightarrow> iv_months iv = 0 \<and> iv_days iv = 0 \<and> 1 \<le> iv_microseconds iv"
  by (auto simp: lease_duration_check_def no_calendar_part_iff interval_value_def)

lemma retry_backoff_check_iff:
  "retry_backoff_check iv \<longleftrightarrow> iv_months iv = 0 \<and> iv_days iv = 0 \<and> 0 \<le> iv_microseconds iv"
  by (auto simp: retry_backoff_check_def no_calendar_part_iff interval_value_def)

text \<open>The schema's checks accept exactly what the read boundary parses.\<close>

lemma lease_check_parses:
  "lease_duration_check iv \<longleftrightarrow> (\<exists>l. LeaseDuration_from_pg_interval iv = Inr l)"
  by (auto simp: lease_duration_check_iff lease.from_pg_iff intro: exI [of _ "LeaseDuration (iv_microseconds iv)"])

lemma backoff_check_parses:
  "retry_backoff_check iv \<longleftrightarrow> (\<exists>b. RetryBackoff_from_pg_interval iv = Inr b)"
  by (auto simp: retry_backoff_check_iff backoff.from_pg_iff intro: exI [of _ "RetryBackoff (iv_microseconds iv)"])

text \<open>Validated identifiers satisfy the schema's checks for any class of blanks within \<open>White_Space\<close>.\<close>

lemma identifier_name_check:
  assumes "identifier_ok s" "\<And>c. space c \<Longrightarrow> is_whitespace c"
  shows "name_check space s"
  using assms by (auto simp: identifier_ok_def name_check_def MAX_IDENTIFIER_LEN_def)

lemma pg_space_whitespace: "pg_space c \<Longrightarrow> is_whitespace c"
  by (auto simp: pg_space_def is_whitespace_def)

section \<open>Shared forms of the operations\<close>

lemma filter_by_id:
  assumes "schema_ok db" "r \<in> set (runs db)"
  shows "filter (\<lambda>x. r_id x = r_id r) (runs db) = [r]"
proof (rule distinct_set_singleton)
  show "distinct (filter (\<lambda>x. r_id x = r_id r) (runs db))"
    using runs_distinct [OF assms(1)] by (simp add: distinct_map)
  show "set (filter (\<lambda>x. r_id x = r_id r) (runs db)) = {r}"
    using assms(2) run_eqI [OF assms(1) _ assms(2)] by auto
qed

text \<open>A fresh key has no attempts, because attempts refer to existing tasks.\<close>

lemma db_inv_insert:
  assumes inv: "db_inv db" and sch: "schema_ok (db\<lparr>runs := runs db @ [r]\<rparr>)"
    and r: "r_state r \<noteq> SRunning" "r_attempt_count r = 0"
  shows "db_inv (db\<lparr>runs := runs db @ [r]\<rparr>)"
proof -
  have "r_id r \<notin> r_id ` set (runs db)"
    using sch by (auto simp: schema_ok_def unique_ok_def runs_unique_def)
  moreover have "a_run_id ` set (attempts db) \<subseteq> r_id ` set (runs db)"
    using inv by (auto simp: db_inv_def schema_ok_def attempts_fk_def)
  ultimately show ?thesis
    using inv sch r by (auto simp: db_inv_def intro!: attempts_inv_insert)
qed

lemma schema_update_jobs:
  assumes sch: "schema_ok db"
    and f: "\<And>j. j \<in> set (jobs db) \<Longrightarrow> p j \<Longrightarrow>
      job_types (f j) \<and> job_checks (f j) \<and> j_id (f j) = j_id j \<and> j_name (f j) = j_name j"
  shows "schema_ok (db\<lparr>jobs := update_where p f (jobs db)\<rparr>)"
proof -
  let ?t = "update_where p f (jobs db)"
  have "map j_id ?t = map j_id (jobs db)" "map j_name ?t = map j_name (jobs db)"
    by (rule map_key_update_where; simp add: f)+
  moreover have "\<forall>j \<in> set ?t. job_types j" "\<forall>j \<in> set ?t. job_checks j"
    using f schema_job [OF sch] by (auto simp: ball_update_where)
  ultimately show ?thesis
    using sch by (simp add: schema_ok_def types_ok_def checks_ok_def unique_ok_def jobs_unique_def attempts_fk_def)
qed

lemma schema_insert_job:
  assumes "schema_ok db" "job_types j" "job_checks j" "j_id j \<notin> j_id ` set (jobs db)"
    "j_name j \<notin> j_name ` set (jobs db)"
  shows "schema_ok (db\<lparr>jobs := jobs db @ [j]\<rparr>)"
  using assms
  by (auto simp: schema_ok_def types_ok_def checks_ok_def unique_ok_def jobs_unique_def attempts_fk_def)

lemma schema_delete_jobs:
  assumes "schema_ok db"
  shows "schema_ok (db\<lparr>jobs := filter q (jobs db)\<rparr>)"
  using assms
  by (auto simp: schema_ok_def types_ok_def checks_ok_def unique_ok_def jobs_unique_def attempts_fk_def
      distinct_map_filter)

lemma db_inv_jobs:
  assumes "db_inv db" "schema_ok (db\<lparr>jobs := js\<rparr>)"
  shows "db_inv (db\<lparr>jobs := js\<rparr>)"
  using assms by (simp add: db_inv_def)

lemma job_ids_distinct: "schema_ok db \<Longrightarrow> distinct (map j_id (jobs db))"
  by (simp add: schema_ok_def unique_ok_def jobs_unique_def)

lemma job_eqI:
  "schema_ok db \<Longrightarrow> i \<in> set (jobs db) \<Longrightarrow> j \<in> set (jobs db) \<Longrightarrow> j_id i = j_id j \<Longrightarrow> i = j"
  by (rule distinct_key_eq [OF job_ids_distinct])

lemma filter_job_by_id:
  assumes "schema_ok db" "j \<in> set (jobs db)"
  shows "filter (\<lambda>x. j_id x = j_id j) (jobs db) = [j]"
proof (rule distinct_set_singleton)
  show "distinct (filter (\<lambda>x. j_id x = j_id j) (jobs db))"
    using job_ids_distinct [OF assms(1)] by (simp add: distinct_map)
  show "set (filter (\<lambda>x. j_id x = j_id j) (jobs db)) = {j}"
    using assms(2) job_eqI [OF assms(1) _ assms(2)] by auto
qed

end
