(* ===== verification/Task_Spec.thy ===== *)
theory Task_Spec
  imports Invariants
begin

text \<open>
  The abstract specification of a task: a state machine over what a client can observe of one task
  (\<open>task_step\<close>), with the promises that its description never changes and that closed attempts stay
  in the history. The locale \<open>safe_operation\<close> is the contract every operation of the scheduler is
  shown to keep; the component theories interpret it.
\<close>

section \<open>The state machine of a task\<close>

datatype task_view =
  TAbsent
| TPending int int
| TRunning int int LeaseToken
| TDone StoredRunState

definition terminal_state :: "StoredRunState \<Rightarrow> bool" where
  "terminal_state s \<longleftrightarrow> s \<noteq> SPending \<and> s \<noteq> SRunning"

text \<open>The two numbers are the attempts used and the attempts allowed.\<close>

inductive task_step :: "task_view \<Rightarrow> task_view \<Rightarrow> bool" where
  create: "1 \<le> m \<Longrightarrow> task_step TAbsent (TPending 0 m)"
| claim: "n < m \<Longrightarrow> task_step (TPending n m) (TRunning (n + 1) m tok)"
| retry: "n < m \<Longrightarrow> task_step (TRunning n m tok) (TPending n m)"
| finish: "terminal_state s \<Longrightarrow> task_step (TRunning n m tok) (TDone s)"
| cancel: "task_step (TPending n m) (TDone SCancelled)"
| prune: "terminal_state s \<Longrightarrow> task_step (TDone s) TAbsent"

inductive_cases task_step_PendingE: "task_step (TPending n m) v"
inductive_cases task_step_RunningE: "task_step (TRunning n m tok) v"
inductive_cases task_step_DoneE: "task_step (TDone s) v"
inductive_simps task_step_Done_simps: "task_step (TDone s) v"

definition row_view :: "'v run_row \<Rightarrow> task_view" where
  "row_view r =
     (case (r_state r, r_lease_token r) of
        (SPending, _) \<Rightarrow> TPending (r_attempt_count r) (r_max_attempts r)
      | (SRunning, Some tok) \<Rightarrow> TRunning (r_attempt_count r) (r_max_attempts r) tok
      | (s, _) \<Rightarrow> TDone s)"

definition view_of :: "'v db \<Rightarrow> RunId \<Rightarrow> task_view" where
  "view_of db i = (case find (\<lambda>r. r_id r = i) (runs db) of None \<Rightarrow> TAbsent | Some r \<Rightarrow> row_view r)"

text \<open>The columns that describe the work.\<close>

definition description where
  "description r =
     (r_job_id r, r_scheduled_for r, r_created_at r, r_job_name r, r_job_args r, r_priority r,
      r_max_attempts r, r_lease_duration r, r_retry_backoff r, r_deduplication_key r)"

definition keeps_descriptions :: "'v db \<Rightarrow> 'v db \<Rightarrow> bool" where
  "keeps_descriptions db db' \<longleftrightarrow>
     (\<forall>r \<in> set (runs db). \<forall>r' \<in> set (runs db'). r_id r' = r_id r \<longrightarrow> description r' = description r)"

definition keeps_history :: "'v db \<Rightarrow> 'v db \<Rightarrow> bool" where
  "keeps_history db db' \<longleftrightarrow>
     (\<forall>a \<in> set (attempts db). \<not> open_attempt a \<longrightarrow>
        a \<in> set (attempts db') \<or> a_run_id a \<notin> r_id ` set (runs db'))"

definition safe_effect :: "'v db \<Rightarrow> 'v db \<Rightarrow> bool" where
  "safe_effect db db' \<longleftrightarrow>
     (\<forall>i. task_step\<^sup>=\<^sup>= (view_of db i) (view_of db' i)) \<and> keeps_descriptions db db' \<and> keeps_history db db'"

locale safe_operation =
  fixes op :: "'v db \<Rightarrow> 'v db"
  assumes keeps_inv: "db_inv db \<Longrightarrow> db_inv (op db)"
    and effect: "db_inv db \<Longrightarrow> safe_effect db (op db)"
begin

lemma simulates: "db_inv db \<Longrightarrow> task_step\<^sup>=\<^sup>= (view_of db i) (view_of (op db) i)"
  using effect by (simp add: safe_effect_def)

text \<open>Terminal states are final: the task keeps its state until retention removes it.\<close>

lemma terminal_final:
  assumes "db_inv db" "view_of db i = TDone s"
  shows "view_of (op db) i = TDone s \<or> view_of (op db) i = TAbsent"
  using simulates [OF assms(1), of i] assms(2) by (auto simp: task_step_Done_simps)

lemma description_kept:
  assumes "db_inv db" "r \<in> set (runs db)" "r' \<in> set (runs (op db))" "r_id r' = r_id r"
  shows "description r' = description r"
  using effect [OF assms(1)] assms(2-4) unfolding safe_effect_def keeps_descriptions_def by blast

lemma iterates: "db_inv db \<Longrightarrow> db_inv ((op ^^ n) db) \<and> task_step\<^sup>*\<^sup>* (view_of db i) (view_of ((op ^^ n) db) i)"
proof (induction n)
  case (Suc n)
  then have "task_step\<^sup>=\<^sup>= (view_of ((op ^^ n) db) i) (view_of ((op ^^ Suc n) db) i)"
    using simulates by simp
  with Suc show ?case using keeps_inv by (auto intro: rtranclp.rtrancl_into_rtrancl)
qed simp

end

section \<open>Views of a table\<close>

lemma view_of_row:
  assumes "schema_ok db" "r \<in> set (runs db)"
  shows "view_of db (r_id r) = row_view r"
  using find_key_unique [OF runs_distinct [OF assms(1)] assms(2)] by (simp add: view_of_def)

lemma view_of_absent: "view_of db i = TAbsent \<longleftrightarrow> i \<notin> r_id ` set (runs db)"
proof -
  have "row_view r \<noteq> TAbsent" for r :: "'a run_row"
    by (simp add: row_view_def split: StoredRunState.splits option.splits)
  then show ?thesis
    using find_key_None [of r_id i "runs db"] by (auto simp: view_of_def split: option.splits)
qed

lemma row_view_simps [simp]:
  "r_state r = SPending \<Longrightarrow> row_view r = TPending (r_attempt_count r) (r_max_attempts r)"
  "r_state r = SRunning \<Longrightarrow> r_lease_token r = Some tok \<Longrightarrow>
     row_view r = TRunning (r_attempt_count r) (r_max_attempts r) tok"
  "terminal_state (r_state r) \<Longrightarrow> row_view r = TDone (r_state r)"
  by (auto simp: row_view_def terminal_state_def split: StoredRunState.splits)

lemma terminal_state_simps [simp]:
  "terminal_state SCompleted" "terminal_state SFailed" "terminal_state SCancelled"
  "\<not> terminal_state SPending" "\<not> terminal_state SRunning"
  by (simp_all add: terminal_state_def)

section \<open>Effects of the forms of update\<close>

lemma find_update_where:
  assumes "\<And>r. r \<in> set t \<Longrightarrow> p r \<Longrightarrow> k (f r) = k r"
  shows "find (\<lambda>r. k r = i) (update_where p f t) =
    map_option (\<lambda>r. if p r then f r else r) (find (\<lambda>r. k r = i) t)"
  using assms by (induction t) auto

lemma find_append: "find p (xs @ ys) = (case find p xs of None \<Rightarrow> find p ys | Some x \<Rightarrow> Some x)"
  by (induction xs) auto

lemma safe_effect_refl: "schema_ok db \<Longrightarrow> safe_effect db db"
  by (auto simp: safe_effect_def keeps_descriptions_def keeps_history_def dest: run_eqI)

text \<open>Only schedules change.\<close>

lemma safe_effect_jobs: "schema_ok db \<Longrightarrow> safe_effect db (db\<lparr>jobs := js\<rparr>)"
  by (auto simp: safe_effect_def keeps_descriptions_def keeps_history_def view_of_def dest: run_eqI)

text \<open>Tasks are updated in place, attempts are updated while open and appended.\<close>

lemma safe_effect_update:
  assumes sch: "schema_ok db" and rs: "runs db' = update_where p f (runs db)"
    and f: "\<And>r. r \<in> set (runs db) \<Longrightarrow> p r \<Longrightarrow> r_id (f r) = r_id r \<and>
      task_step\<^sup>=\<^sup>= (row_view r) (row_view (f r)) \<and> description (f r) = description r"
    and as: "\<And>a. a \<in> set (attempts db) \<Longrightarrow> \<not> open_attempt a \<Longrightarrow> a \<in> set (attempts db')"
  shows "safe_effect db db'"
proof -
  have "task_step\<^sup>=\<^sup>= (view_of db i) (view_of db' i)" for i
  proof -
    have find: "find (\<lambda>r. r_id r = i) (runs db') =
        map_option (\<lambda>r. if p r then f r else r) (find (\<lambda>r. r_id r = i) (runs db))"
      unfolding rs by (rule find_update_where) (use f in blast)
    show ?thesis
    proof (cases "find (\<lambda>r. r_id r = i) (runs db)")
      case (Some r)
      then have "r \<in> set (runs db)" by (rule find_key_Some)
      with Some find f show ?thesis by (simp add: view_of_def)
    qed (simp add: view_of_def find)
  qed
  moreover have "description r' = description r"
    if r: "r \<in> set (runs db)" "r' \<in> set (runs db')" "r_id r' = r_id r" for r r'
  proof -
    obtain r0 where r0: "r0 \<in> set (runs db)" "r' = (if p r0 then f r0 else r0)"
      using r(2) by (auto simp: rs update_where_def)
    then have "r_id r0 = r_id r" using f [OF r0(1)] r(3) by (auto split: if_splits)
    then have "r0 = r" using run_eqI [OF sch r0(1) r(1)] by blast
    with r0 f [OF r0(1)] show ?thesis by auto
  qed
  ultimately show ?thesis
    using as by (simp add: safe_effect_def keeps_descriptions_def keeps_history_def)
qed

text \<open>A pending task is added.\<close>

lemma safe_effect_insert:
  assumes sch: "schema_ok (db\<lparr>runs := runs db @ [r]\<rparr>)"
    and r: "r_state r = SPending" "r_attempt_count r = 0"
  shows "safe_effect db (db\<lparr>runs := runs db @ [r]\<rparr>)"
proof -
  have new: "r_id r \<notin> r_id ` set (runs db)" and m: "1 \<le> r_max_attempts r"
    using sch by (auto simp: schema_ok_def unique_ok_def runs_unique_def checks_ok_def run_checks_def
        attempts_check_def)
  have old: "x = y" if "x \<in> set (runs db)" "y \<in> set (runs db)" "r_id x = r_id y" for x y
    using run_eqI [OF sch, of x y] that by simp
  have "task_step\<^sup>=\<^sup>= (view_of db i) (view_of (db\<lparr>runs := runs db @ [r]\<rparr>) i)" for i
  proof (cases "find (\<lambda>x. r_id x = i) (runs db)")
    case None
    then show ?thesis
      using r m by (auto simp: view_of_def find_append task_step.create)
  next
    case (Some x)
    then show ?thesis by (simp add: view_of_def find_append)
  qed
  moreover have "keeps_descriptions db (db\<lparr>runs := runs db @ [r]\<rparr>)"
    using old new by (auto simp: keeps_descriptions_def)
  ultimately show ?thesis by (simp add: safe_effect_def keeps_history_def)
qed

text \<open>Terminal tasks are deleted with their attempts.\<close>

lemma safe_effect_delete:
  assumes sch: "schema_ok db"
    and fin: "\<And>r. r \<in> set (runs db) \<Longrightarrow> r_id r \<in> S \<Longrightarrow> terminal_state (r_state r)"
  shows "safe_effect db (db\<lparr>runs := filter (\<lambda>r. r_id r \<notin> S) (runs db),
      attempts := filter (\<lambda>a. a_run_id a \<notin> S) (attempts db)\<rparr>)" (is "safe_effect db ?db'")
proof -
  have "task_step\<^sup>=\<^sup>= (view_of db i) (view_of ?db' i)" for i
  proof (cases "i \<in> r_id ` set (runs db) \<and> i \<in> S")
    case True
    then obtain r where r: "r \<in> set (runs db)" "r_id r = i" by auto
    then have "view_of db i = TDone (r_state r)"
      using view_of_row [OF sch r(1)] True fin by simp
    moreover have "view_of ?db' i = TAbsent" using True by (auto simp: view_of_absent)
    ultimately show ?thesis using fin r True by (auto intro: task_step.prune)
  next
    case False
    have "find (\<lambda>r. r_id r = i) (filter (\<lambda>r. r_id r \<notin> S) t) = find (\<lambda>r. r_id r = i) t"
      if "i \<in> S \<Longrightarrow> i \<notin> r_id ` set t" for t :: "'a run_row list"
      using that by (induction t) auto
    from this [of "runs db"] show ?thesis using False by (auto simp: view_of_def)
  qed
  then show ?thesis
    using run_eqI [OF sch] by (auto simp: safe_effect_def keeps_descriptions_def keeps_history_def)
qed

end
