(* ===== verification/Samples.thy ===== *)
theory Samples
  imports Task_Spec
begin

text \<open>
  A small database with one task in each of the states pending, running, completed and failed, and
  one due schedule, with the environments and the croner instance on which the theorems are
  exercised.
\<close>

definition sample_name :: JobName where "sample_name = JobName (lit ''email'')"
definition sample_worker :: WorkerId where "sample_worker = WorkerId (lit ''pod'')"
definition sample_lease :: pg_interval where "sample_lease = from_microseconds 300"
definition sample_backoff :: pg_interval where "sample_backoff = from_microseconds 10"

definition sample_task :: "uuid \<Rightarrow> nat run_row" where
  "sample_task u =
     \<lparr>r_id = RunId u, r_job_id = None, r_scheduled_for = 5, r_attempt_count = 0, r_created_at = 5,
      r_updated_at = 5, r_job_name = sample_name, r_job_args = 0, r_available_at = 5, r_priority = 0,
      r_state = SPending, r_max_attempts = 3, r_lease_duration = sample_lease,
      r_retry_backoff = sample_backoff, r_worker_id = None, r_lease_token = None,
      r_lease_expires_at = None, r_started_at = None, r_finished_at = None, r_last_error = None,
      r_deduplication_key = None\<rparr>"

definition sample_pending :: "nat run_row" where
  "sample_pending = (sample_task 1)\<lparr>r_deduplication_key := Some (DeduplicationKey (lit ''k''))\<rparr>"

definition sample_running :: "nat run_row" where
  "sample_running =
     (sample_task 2)\<lparr>r_attempt_count := 1, r_state := SRunning, r_worker_id := Some sample_worker,
       r_lease_token := Some (LeaseToken 7), r_lease_expires_at := Some 400, r_started_at := Some 100\<rparr>"

definition sample_completed :: "nat run_row" where
  "sample_completed =
     (sample_task 3)\<lparr>r_attempt_count := 1, r_state := SCompleted, r_finished_at := Some 50\<rparr>"

definition sample_open :: attempt_row where
  "sample_open =
     \<lparr>a_run_id = RunId 2, a_attempt_number = 1, a_worker_id = sample_worker,
      a_lease_token = LeaseToken 7, a_started_at = 100, a_lease_expires_at = 400,
      a_finished_at = None, a_outcome = None, a_error = None\<rparr>"

definition sample_closed :: attempt_row where
  "sample_closed =
     \<lparr>a_run_id = RunId 3, a_attempt_number = 1, a_worker_id = sample_worker,
      a_lease_token = LeaseToken 8, a_started_at = 20, a_lease_expires_at = 320,
      a_finished_at = Some 50, a_outcome = Some ACompleted, a_error = None\<rparr>"

definition sample_job :: "nat SchedulerJob" where
  "sample_job =
     \<lparr>j_id = JobId 9, j_name = sample_name, j_cron_expression = lit ''cron'', j_job_args = 0,
      j_next_run_at = 60, j_lease_duration = sample_lease, j_max_attempts = 3, j_is_paused = False,
      j_created_at = 5, j_updated_at = 5, j_retry_backoff = sample_backoff\<rparr>"

definition sample_db :: "nat db" where
  "sample_db =
     \<lparr>jobs = [sample_job], runs = [sample_pending, sample_running, sample_completed],
      attempts = [sample_open, sample_closed]\<rparr>"

text \<open>
  Every clock reads \<open>t\<close>, nothing is locked, generated keys are 50 and the task's own plus 100, and every
  payload reads back.
\<close>

definition sample_env :: "timestamp \<Rightarrow> env" where
  "sample_env t =
     \<lparr>env_now = t, env_clock = (\<lambda>_ _. t), env_run_locked = (\<lambda>_. False), env_job_locked = (\<lambda>_. False),
      env_new_uuid = 50, env_token = (\<lambda>i. RunId_uuid i + 100), env_run_args_read = (\<lambda>_. True),
      env_job_args_read = (\<lambda>_. True)\<rparr>"

text \<open>A croner that accepts \<open>cron\<close> and steps by a minute, and one that accepts it but never finds a next time.\<close>

definition sample_croner :: "unit croner" where
  "sample_croner =
     \<lparr>croner_parse = (\<lambda>s. if s = lit ''cron'' then Inr () else Inl []), croner_next = (\<lambda>_ t. Inr (t + 60))\<rparr>"

definition stuck_croner :: "unit croner" where
  "stuck_croner =
     \<lparr>croner_parse = (\<lambda>s. if s = lit ''cron'' then Inr () else Inl []), croner_next = (\<lambda>_ t. Inl [])\<rparr>"

lemmas sample_rows = sample_task_def sample_pending_def sample_running_def sample_completed_def
  sample_open_def sample_closed_def sample_job_def
lemmas sample_defs = sample_rows sample_name_def sample_worker_def sample_lease_def sample_backoff_def
  sample_db_def

lemma lit_simps [simp]: "lit [] = []" "lit (c # s) = of_char c # lit s"
  by (simp_all add: lit_def)

lemma sample_names [simp]:
  "name_check pg_space (JobName_as_str sample_name)"
  "name_check pg_space (WorkerId_as_str sample_worker)"
  by (simp_all add: name_check_def pg_space_def sample_name_def sample_worker_def)

lemma sample_texts [simp]: "pg_text (JobName_as_str sample_name)" "pg_text (WorkerId_as_str sample_worker)"
  by (simp_all add: sample_name_def sample_worker_def)

lemma sample_intervals [simp]:
  "pg_interval_type sample_lease" "lease_duration_check sample_lease"
  "pg_interval_type sample_backoff" "retry_backoff_check sample_backoff"
  by (simp_all add: sample_lease_def sample_backoff_def pg_interval_type_def int_range_defs
      lease_duration_check_iff retry_backoff_check_iff)

lemma sample_rows_ok:
  "run_types sample_pending" "run_checks sample_pending" "run_types sample_running"
  "run_checks sample_running" "run_types sample_completed" "run_checks sample_completed"
  "attempt_types sample_open" "attempt_checks sample_open" "attempt_types sample_closed"
  "attempt_checks sample_closed" "job_types sample_job" "job_checks sample_job"
  by (simp_all add: sample_rows run_types_def run_checks_def attempt_types_def attempt_checks_def
      job_types_def job_checks_def attempts_check_def state_check_def no_lease_def pg_timestamp_def
      int_range_defs)

lemma sample_schema: "schema_ok sample_db"
  using sample_rows_ok
  by (simp add: schema_ok_def types_ok_def checks_ok_def unique_ok_def jobs_unique_def runs_unique_def
      attempts_unique_def attempts_fk_def sample_db_def)
    (simp add: sample_rows)

lemma sample_inv: "db_inv sample_db"
  using sample_schema
  by (auto simp: db_inv_def attempts_inv_def mirrors_def open_attempt_def attempt_keys_def sample_db_def
      sample_rows)

lemma sample_env_ok: "pg_timestamp t \<Longrightarrow> env_ok (sample_env t)"
  by (simp add: env_ok_def sample_env_def)

lemma sample_env_sel [simp]:
  "env_now (sample_env t) = t" "env_clock (sample_env t) site i = t" "env_run_locked (sample_env t) i = False"
  "env_job_locked (sample_env t) j = False" "env_new_uuid (sample_env t) = 50"
  "env_token (sample_env t) i = RunId_uuid i + 100" "env_run_args_read (sample_env t) i"
  "env_job_args_read (sample_env t) j"
  by (simp_all add: sample_env_def)


lemma sample_200: "env_ok (sample_env 200)"
  by (rule sample_env_ok) (simp add: pg_timestamp_def)

text \<open>The same database with a second pending task.\<close>

definition sample_db2 :: "nat db" where
  "sample_db2 = sample_db\<lparr>runs := runs sample_db @ [sample_task 4]\<rparr>"

lemma sample_inv2: "db_inv sample_db2"
  unfolding sample_db2_def
proof (rule db_inv_insert [OF sample_inv])
  show "schema_ok (sample_db\<lparr>runs := runs sample_db @ [sample_task 4]\<rparr>)"
  proof (rule schema_insert_run [OF sample_schema])
    show "run_types (sample_task 4)" "run_checks (sample_task 4)"
      by (simp_all add: sample_task_def run_types_def run_checks_def attempts_check_def state_check_def
          no_lease_def pg_timestamp_def int_range_defs)
  qed (simp_all add: sample_db_def sample_rows)
qed (simp_all add: sample_task_def)

text \<open>
  A database whose only task asks for a lease of \<open>l\<close> microseconds: the longest one the configuration type
  accepts, and one that ends in a year PostgreSQL stores and chrono does not read.
\<close>

definition sample_leased :: "int \<Rightarrow> nat run_row" where
  "sample_leased l = (sample_task 4)\<lparr>r_lease_duration := from_microseconds l\<rparr>"

definition sample_leased_db :: "int \<Rightarrow> nat db" where
  "sample_leased_db l = empty_db\<lparr>runs := [sample_leased l]\<rparr>"

definition far_lease :: int where "far_lease = 8300000000000000000"

abbreviation sample_endless :: "nat run_row" where "sample_endless \<equiv> sample_leased i64_max"
abbreviation sample_endless_db :: "nat db" where "sample_endless_db \<equiv> sample_leased_db i64_max"

lemma sample_leased_inv:
  assumes "1 \<le> l" "l \<le> i64_max"
  shows "db_inv (sample_leased_db l)"
proof -
  have "run_types (sample_leased l)" "run_checks (sample_leased l)"
    using assms
    by (simp_all add: sample_leased_def sample_task_def run_types_def run_checks_def attempts_check_def
        state_check_def no_lease_def pg_timestamp_def int_range_defs pg_interval_type_def
        sample_backoff_def lease_duration_check_iff retry_backoff_check_iff)
  moreover have "db_inv (empty_db :: nat db)" by (rule db_inv_empty)
  ultimately have "db_inv (empty_db\<lparr>runs := runs empty_db @ [sample_leased l]\<rparr>)"
    by (intro db_inv_insert schema_insert_run)
      (simp_all add: empty_db_def db_inv_def sample_leased_def sample_task_def)
  then show ?thesis by (simp add: sample_leased_db_def empty_db_def)
qed

lemma sample_endless_inv: "db_inv sample_endless_db"
  by (rule sample_leased_inv) (simp_all add: i64_max_def)

lemma sample_far_inv: "db_inv (sample_leased_db far_lease)"
  by (rule sample_leased_inv) (simp_all add: i64_max_def far_lease_def)

end
