(* ===== verification/Boundary.thy ===== *)
theory Boundary
  imports Samples
begin

text \<open>
  The validation boundary: what the constructors of the identifier and configuration types accept is
  what the schema's constraints admit and what the read side parses back.
\<close>

lemma JobName_try_from_ok: "JobName_try_from s = Inr n \<longleftrightarrow> identifier_ok s \<and> n = JobName s"
  using validate_identifier_ok [of s] by (auto simp: JobName_try_from_def and_then_Inr_iff)

lemma WorkerId_try_from_ok: "WorkerId_try_from s = Inr w \<longleftrightarrow> identifier_ok s \<and> w = WorkerId s"
  using validate_identifier_ok [of s] by (auto simp: WorkerId_try_from_def and_then_Inr_iff)

lemma DeduplicationKey_try_from_ok:
  "DeduplicationKey_try_from s = Inr k \<longleftrightarrow> identifier_ok s \<and> k = DeduplicationKey s"
  using validate_identifier_ok [of s] by (auto simp: DeduplicationKey_try_from_def and_then_Inr_iff)

text \<open>
  A job name is accepted exactly when it has 1 to 255 characters and neither its first nor its
  last character is Unicode white space, and it is stored unchanged; every other text is refused with
  the first matching error: empty, white space at an end, too long.
\<close>

lemma job_name_policy:
  "((\<exists>n. JobName_try_from s = Inr n \<and> JobName_as_str n = s) \<longleftrightarrow>
      1 \<le> length s \<and> length s \<le> 255 \<and> \<not> is_whitespace (hd s) \<and> \<not> is_whitespace (last s)) \<and>
   (JobName_try_from s = Inl Empty \<longleftrightarrow> length s = 0) \<and>
   (JobName_try_from s = Inl SurroundingWhitespace \<longleftrightarrow>
      length s \<noteq> 0 \<and> (is_whitespace (hd s) \<or> is_whitespace (last s))) \<and>
   (JobName_try_from s = Inl TooLong \<longleftrightarrow>
      255 < length s \<and> \<not> is_whitespace (hd s) \<and> \<not> is_whitespace (last s))"
proof (intro conjI)
  show "(\<exists>n. JobName_try_from s = Inr n \<and> JobName_as_str n = s) \<longleftrightarrow>
      1 \<le> length s \<and> length s \<le> 255 \<and> \<not> is_whitespace (hd s) \<and> \<not> is_whitespace (last s)"
    by (simp add: JobName_try_from_ok identifier_ok_def MAX_IDENTIFIER_LEN_def)
qed (auto simp: JobName_try_from_def and_then_Inl_iff validate_identifier_errors MAX_IDENTIFIER_LEN_def)

text \<open>
  A validated job name, worker id or deduplication key satisfies the \<open>CHECK\<close> constraints of its
  columns, for every class of blanks the database may use within Unicode white space; so these
  constraints never refuse a value the constructors accepted. (U+0000, which the constructors let through,
  is refused by the column type, \<open>pg_text\<close>.)
\<close>

lemma validated_identifiers_stored:
  assumes "\<And>c. space c \<Longrightarrow> is_whitespace c"
    and "JobName_try_from s = Inr n" "WorkerId_try_from s' = Inr w" "DeduplicationKey_try_from s'' = Inr k"
  shows "name_check space (JobName_as_str n) \<and> name_check space (WorkerId_as_str w) \<and>
    1 \<le> length (DeduplicationKey_as_str k) \<and> length (DeduplicationKey_as_str k) \<le> 255"
  using assms identifier_name_check [of s space] identifier_name_check [of s' space]
  by (auto simp: JobName_try_from_ok WorkerId_try_from_ok DeduplicationKey_try_from_ok
      identifier_ok_def MAX_IDENTIFIER_LEN_def)

text \<open>
  A lease duration that the constructor accepts is stored exactly: the stored interval has the
  duration's length to the nanosecond and no calendar part, passes the schema's \<open>CHECK\<close>, reads back
  as the same value, and converts back to the duration it was made from.
\<close>

lemma lease_duration_roundtrip:
  assumes "duration_wf d" "LeaseDuration_try_from d = Inr l"
  shows "lease_duration_check (LeaseDuration_to_pg_interval l) \<and>
    LeaseDuration_from_pg_interval (LeaseDuration_to_pg_interval l) = Inr l \<and>
    LeaseDuration_as_duration l = d \<and>
    iv_microseconds (LeaseDuration_to_pg_interval l) * 1000 = int (duration_total_nanos d)"
  using lease.persisted_duration [OF assms] by (auto simp: lease_check_parses)

text \<open>
  A retry backoff that the constructor accepts, zero included, is stored exactly: it passes the
  schema's \<open>CHECK\<close>, reads back as the same value and converts back to the duration it was made from.
\<close>

lemma retry_backoff_roundtrip:
  assumes "duration_wf d" "RetryBackoff_try_from d = Inr b"
  shows "retry_backoff_check (RetryBackoff_to_pg_interval b) \<and>
    RetryBackoff_from_pg_interval (RetryBackoff_to_pg_interval b) = Inr b \<and>
    RetryBackoff_as_duration b = d \<and>
    iv_microseconds (RetryBackoff_to_pg_interval b) * 1000 = int (duration_total_nanos d)"
  using backoff.persisted_duration [OF assms] by (auto simp: backoff_check_parses)

text \<open>
  The schema's interval constraints and the read boundary agree: an interval is admitted into a
  lease or backoff column exactly when reading it back succeeds.
\<close>

lemma interval_checks_agree:
  "(lease_duration_check iv \<longleftrightarrow> (\<exists>l. LeaseDuration_from_pg_interval iv = Inr l)) \<and>
   (retry_backoff_check iv \<longleftrightarrow> (\<exists>b. RetryBackoff_from_pg_interval iv = Inr b))"
  by (simp add: lease_check_parses backoff_check_parses)

text \<open>
  Attempt limits: zero and values above \<open>i32::MAX\<close> are refused, and every accepted value is
  returned unchanged by \<open>get\<close> and survives the round trip through the \<open>INTEGER\<close> column.
\<close>

lemma max_attempts_roundtrip:
  "((\<exists>m. MaxAttempts_try_from v = Inr m) \<longleftrightarrow> 0 < uint v \<and> uint v < 2 ^ 31) \<and>
   (case MaxAttempts_try_from v of
      Inl e \<Rightarrow> e = (if v = 0 then NonPositive else TooLargeAttempts)
    | Inr m \<Rightarrow> MaxAttempts_get m = v \<and> MaxAttempts_from_db_i32 (MaxAttempts_to_i32 m) = Inr m \<and>
        in_i32 (MaxAttempts_to_i32 m))"
proof -
  have pos: "0 < uint v \<longleftrightarrow> v \<noteq> 0"
    by (metis uint_0_eq uint_ge_0 word_uint_eqI less_le)
  have some: "(\<exists>m. MaxAttempts_try_from v = Inr m) \<longleftrightarrow> 0 < uint v \<and> uint v < 2 ^ 31"
    unfolding pos MaxAttempts_try_from_iff
    by (auto simp: i32_max_def intro: exI [of _ "MaxAttempts (uint v)"])
  show ?thesis
  proof (cases "MaxAttempts_try_from v")
    case (Inl e)
    then have "e = (if v = 0 then NonPositive else TooLargeAttempts)"
      using pos
      by (auto simp: MaxAttempts_try_from_def non_zero_def i32_try_from_u32_def i32_max_def split: if_splits)
    with Inl some show ?thesis by simp
  next
    case (Inr m)
    then have m: "v \<noteq> 0" "uint v \<le> i32_max" "MaxAttempts_to_i32 m = uint v"
      by (simp_all add: MaxAttempts_try_from_iff)
    have "- i32_max - 1 \<le> 0" by (simp add: i32_max_def)
    then have i: "in_i32 (uint v)"
      unfolding in_i32_def using m(2) by (intro conjI order_trans [OF _ uint_ge_0])
    then have "MaxAttempts_get m = v"
      using m(3) by (simp add: MaxAttempts_get_def i32_unsigned_abs_def)
    with Inr some i m pos show ?thesis by (simp add: MaxAttempts_from_db_iff)
  qed
qed

end
