(* ===== verification/Claim.thy ===== *)
theory Claim
  imports Samples
begin

text \<open>
  \<^verbatim>\<open>src/src/store/claim.rs\<close>: the writable CTE that claims a batch of pending tasks, and the decoding
  of its rows, first by Diesel (\<open>load_claimed\<close>) and then by the function itself (\<open>decode_claimed\<close>). The
  statement runs alone in its transaction and both decodings happen after it has committed, so an
  unreadable row loses the claims: they stay running while the call answers an error.
\<close>

section \<open>The statement\<close>

record 'v ClaimedRow =
  cr_run_id :: RunId
  cr_job_id :: "JobId option"
  cr_job_name :: JobName
  cr_job_args :: 'v
  cr_scheduled_for :: timestamp
  cr_attempt :: int
  cr_lease_token :: LeaseToken
  cr_lease_expires_at :: timestamp
  cr_lease_duration :: pg_interval

definition claimable :: "env \<Rightarrow> rust_string list \<Rightarrow> 'v run_row \<Rightarrow> bool" where
  "claimable env names r \<longleftrightarrow>
     r_state r = SPending \<and> r_available_at r \<le> env_now env \<and>
     JobName_as_str (r_job_name r) \<in> set names"

definition claim_rank :: "'v run_row \<Rightarrow> int \<times> timestamp \<times> RunId" where
  "claim_rank r = (- r_priority r, r_available_at r, r_id r)"

definition claim_candidates :: "env \<Rightarrow> rust_string list \<Rightarrow> nat \<Rightarrow> 'v db \<Rightarrow> 'v run_row list" where
  "claim_candidates env names limit db =
     select_ordered claim_rank
       (\<lambda>r. claimable env names r \<and> \<not> env_run_locked env (r_id r)) limit (runs db)"

definition claim_expiry :: "env \<Rightarrow> 'v run_row \<Rightarrow> timestamp" where
  "claim_expiry env r = env_clock env ExpiresClock (r_id r) + iv_microseconds (r_lease_duration r)"

definition claim_update :: "env \<Rightarrow> WorkerId \<Rightarrow> 'v run_row \<Rightarrow> 'v run_row" where
  "claim_update env worker r =
     r\<lparr>r_state := SRunning,
       r_attempt_count := r_attempt_count r + 1,
       r_worker_id := Some worker,
       r_lease_token := Some (LeaseToken (env_token env (r_id r))),
       r_started_at := Some (env_clock env StartedClock (r_id r)),
       r_lease_expires_at := Some (claim_expiry env r),
       r_updated_at := env_clock env UpdatedClock (r_id r)\<rparr>"

definition recorded_attempt :: "env \<Rightarrow> WorkerId \<Rightarrow> 'v run_row \<Rightarrow> attempt_row" where
  "recorded_attempt env worker r =
     \<lparr>a_run_id = r_id r,
      a_attempt_number = r_attempt_count r + 1,
      a_worker_id = worker,
      a_lease_token = LeaseToken (env_token env (r_id r)),
      a_started_at = env_clock env StartedClock (r_id r),
      a_lease_expires_at = claim_expiry env r,
      a_finished_at = None, a_outcome = None, a_error = None\<rparr>"

definition claimed_row :: "env \<Rightarrow> 'v run_row \<Rightarrow> 'v ClaimedRow" where
  "claimed_row env r =
     \<lparr>cr_run_id = r_id r, cr_job_id = r_job_id r, cr_job_name = r_job_name r,
      cr_job_args = r_job_args r, cr_scheduled_for = r_scheduled_for r,
      cr_attempt = r_attempt_count r + 1,
      cr_lease_token = LeaseToken (env_token env (r_id r)),
      cr_lease_expires_at = claim_expiry env r,
      cr_lease_duration = r_lease_duration r\<rparr>"

definition CLAIM_BATCH ::
    "env \<Rightarrow> rust_string list \<Rightarrow> nat \<Rightarrow> WorkerId \<Rightarrow> 'v db \<Rightarrow> SchedulerError + 'v ClaimedRow list \<times> 'v db" where
  "CLAIM_BATCH env names limit worker db =
     (let candidates = claim_candidates env names limit db;
          ids = map r_id candidates;
          recorded = map (recorded_attempt env worker) candidates
      in and_then (bind_texts (WorkerId_as_str worker # names)) (\<lambda>_.
         and_then (checked
           (db\<lparr>runs := update_where (\<lambda>r. r_id r \<in> set ids) (claim_update env worker) (runs db),
               attempts := attempts db @ recorded\<rparr>)) (\<lambda>db'.
         Inr (sort_key (\<lambda>c. (cr_scheduled_for c, cr_run_id c))
                (filter (\<lambda>c. cr_run_id c \<in> set (map a_run_id recorded))
                  (map (claimed_row env) candidates)), db'))))"

section \<open>Decoding and the operations\<close>

definition load_claimed :: "env \<Rightarrow> 'v ClaimedRow \<Rightarrow> SchedulerError + 'v ClaimedRow" where
  "load_claimed env row =
     decoded (chrono_timestamp (cr_scheduled_for row) \<and> chrono_timestamp (cr_lease_expires_at row) \<and>
       env_run_args_read env (cr_run_id row)) row"

definition decode_claimed :: "'v ClaimedRow \<Rightarrow> SchedulerError + 'v ClaimedRun" where
  "decode_claimed row =
     and_then (ok_or (Option.bind (u32_try_from_i32 (cr_attempt row)) non_zero)
        (Invariant ''attempt_count must be positive after claim'')) (\<lambda>attempt.
     and_then (map_err (\<lambda>_. Invariant ''claimed task has invalid lease duration'')
        (LeaseDuration_from_pg_interval (cr_lease_duration row))) (\<lambda>lease_duration.
     Inr \<lparr>c_run_id = cr_run_id row, c_job_id = cr_job_id row, c_job_name = cr_job_name row,
          c_job_args = cr_job_args row, c_scheduled_for = cr_scheduled_for row,
          c_attempt = attempt, c_lease_token = cr_lease_token row,
          c_lease_expires_at = cr_lease_expires_at row, c_lease_duration = lease_duration\<rparr>))"

definition claim_batch ::
    "env \<Rightarrow> WorkerId \<Rightarrow> rust_string list \<Rightarrow> usize \<Rightarrow> 'v db \<Rightarrow> (SchedulerError + 'v ClaimedRun list) \<times> 'v db" where
  "claim_batch env worker names limit db =
     (case i64_try_from_usize limit of
        None \<Rightarrow> (Inl (Config ''claim batch is too large''), db)
      | Some n \<Rightarrow>
          (case transaction db (CLAIM_BATCH env names (nat n) worker db) of
             (Inl e, db') \<Rightarrow> (Inl e, db')
           | (Inr rows, db') \<Rightarrow>
               (and_then (collect_results (load_claimed env) rows) (collect_results decode_claimed), db')))"

definition claim_one ::
    "env \<Rightarrow> WorkerId \<Rightarrow> rust_string list \<Rightarrow> 'v db \<Rightarrow> (SchedulerError + 'v ClaimedRun option) \<times> 'v db" where
  "claim_one env worker names db =
     (case claim_batch env worker names 1 db of
        (Inl e, db') \<Rightarrow> (Inl e, db')
      | (Inr claimed, db') \<Rightarrow> (Inr (if claimed = [] then None else Some (last claimed)), db'))"

lemmas claim_row_defs = claim_update_def recorded_attempt_def claimed_row_def

section \<open>Candidates\<close>

lemma claim_candidatesD:
  assumes "r \<in> set (claim_candidates env names n db)"
  shows "r \<in> set (runs db)" "claimable env names r" "\<not> env_run_locked env (r_id r)"
proof -
  have "r \<in> {r \<in> set (runs db). claimable env names r \<and> \<not> env_run_locked env (r_id r)}"
    using assms unfolding claim_candidates_def by (rule subsetD [OF set_select_ordered])
  then show "r \<in> set (runs db)" "claimable env names r" "\<not> env_run_locked env (r_id r)"
    by auto
qed

lemma distinct_candidates:
  "schema_ok db \<Longrightarrow> distinct (map r_id (claim_candidates env names n db))"
  unfolding claim_candidates_def by (intro distinct_key_select_ordered runs_distinct)

lemma candidate_by_id:
  assumes "schema_ok db" "r \<in> set (runs db)"
  shows "r_id r \<in> r_id ` set (claim_candidates env names n db) \<longleftrightarrow>
    r \<in> set (claim_candidates env names n db)"
  using assms by (auto dest: claim_candidatesD(1) run_eqI)

lemma pending_row:
  assumes "schema_ok db" "r \<in> set (runs db)" "r_state r = SPending"
  shows "0 \<le> r_attempt_count r" "r_attempt_count r < r_max_attempts r" "no_lease r"
  using schema_run [OF assms(1,2)] assms(3)
  by (auto simp: run_checks_def attempts_check_def state_check_def)

lemma mirrors_claimed: "mirrors (claim_update env w r) (recorded_attempt env w r)"
  by (simp add: mirrors_def claim_row_defs)

lemma open_recorded: "open_attempt (recorded_attempt env w r)"
  by (simp add: open_attempt_def recorded_attempt_def)

section \<open>The batch\<close>

text \<open>The rows a successful claim returns, before they are decoded.\<close>

definition claimed_rows :: "env \<Rightarrow> rust_string list \<Rightarrow> nat \<Rightarrow> 'v db \<Rightarrow> 'v ClaimedRow list" where
  "claimed_rows env names n db =
     sort_key (\<lambda>c. (cr_scheduled_for c, cr_run_id c))
       (map (claimed_row env) (claim_candidates env names n db))"

definition claimed_db :: "env \<Rightarrow> rust_string list \<Rightarrow> nat \<Rightarrow> WorkerId \<Rightarrow> 'v db \<Rightarrow> 'v db" where
  "claimed_db env names n worker db =
     db\<lparr>runs := update_where (\<lambda>r. r_id r \<in> r_id ` set (claim_candidates env names n db))
          (claim_update env worker) (runs db),
        attempts := attempts db @ map (recorded_attempt env worker) (claim_candidates env names n db)\<rparr>"

lemma CLAIM_BATCH_eq:
  "CLAIM_BATCH env names n worker db =
     and_then (bind_texts (WorkerId_as_str worker # names)) (\<lambda>_.
     and_then (checked (claimed_db env names n worker db)) (\<lambda>db'. Inr (claimed_rows env names n db, db')))"
proof -
  have flt: "filter (\<lambda>c. cr_run_id c \<in> set (map a_run_id (map (recorded_attempt env worker) cs)))
      (map (claimed_row env) cs) = map (claimed_row env) cs" for cs :: "'v run_row list"
    by (rule filter_True) (auto simp: claim_row_defs)
  show ?thesis
    unfolding CLAIM_BATCH_def claimed_rows_def claimed_db_def Let_def flt by (simp only: set_map)
qed

lemma claimed_db_attempts_inv:
  assumes "db_inv db"
  shows "attempts_inv (runs (claimed_db env names n w db)) (attempts (claimed_db env names n w db))"
proof -
  let ?cs = "claim_candidates env names n db"
  have sch: "schema_ok db" using assms by (simp add: db_inv_def)
  have "attempts_inv (update_where (\<lambda>r. r_id r \<in> r_id ` set ?cs) (claim_update env w) (runs db))
      (attempts db @ map (recorded_attempt env w) ?cs)"
  proof (rule attempts_inv_claim)
    fix r assume r: "r \<in> set (runs db)" "r_id r \<in> r_id ` set ?cs"
    then have "r \<in> set ?cs" using candidate_by_id [OF sch] by blast
    from claim_candidatesD(2) [OF this] have "r_state r = SPending" by (simp add: claimable_def)
    then show "r_state r \<noteq> SRunning \<and> 0 \<le> r_attempt_count r \<and>
        r_id (claim_update env w r) = r_id r \<and>
        r_attempt_count (claim_update env w r) = r_attempt_count r + 1 \<and>
        mirrors (claim_update env w r) (recorded_attempt env w r) \<and>
        open_attempt (recorded_attempt env w r)"
      using pending_row(1) [OF sch r(1)]
      by (simp add: mirrors_claimed open_recorded) (simp add: claim_update_def)
  next
    show "set ?cs = {r \<in> set (runs db). r_id r \<in> r_id ` set ?cs}"
      using candidate_by_id [OF sch] claim_candidatesD(1) by blast
  qed (use assms runs_distinct [OF sch] in \<open>simp_all add: db_inv_def\<close>)
  then show ?thesis by (simp add: claimed_db_def)
qed

text \<open>Diesel reads the returned rows when every candidate's times and payload can be read.\<close>

definition claim_readable :: "env \<Rightarrow> 'v run_row list \<Rightarrow> bool" where
  "claim_readable env cs \<longleftrightarrow>
     (\<forall>r \<in> set cs. chrono_timestamp (r_scheduled_for r) \<and> chrono_timestamp (claim_expiry env r) \<and>
        env_run_args_read env (r_id r))"

lemma load_claimed_rows:
  "collect_results (load_claimed env) (claimed_rows env names n db) =
     (if claim_readable env (claim_candidates env names n db)
      then Inr (claimed_rows env names n db) else Inl decode_error)"
  unfolding load_claimed_def collect_decoded claim_readable_def
  by (simp add: claimed_rows_def claimed_row_def)

text \<open>A row that was read decodes further: the schema only admits leases the read boundary accepts.\<close>

lemma decode_claimed_ok:
  assumes "schema_ok db" "r \<in> set (claim_candidates env names n db)"
  obtains l where "decode_claimed (claimed_row env r) =
      Inr \<lparr>c_run_id = r_id r, c_job_id = r_job_id r, c_job_name = r_job_name r,
           c_job_args = r_job_args r, c_scheduled_for = r_scheduled_for r,
           c_attempt = word_of_int (r_attempt_count r + 1),
           c_lease_token = LeaseToken (env_token env (r_id r)),
           c_lease_expires_at = claim_expiry env r, c_lease_duration = l\<rparr>"
    and "LeaseDuration_from_pg_interval (r_lease_duration r) = Inr l"
    and "uint (word_of_int (r_attempt_count r + 1) :: u32) = r_attempt_count r + 1"
proof -
  have r: "r \<in> set (runs db)" "r_state r = SPending"
    using claim_candidatesD(1,2) [OF assms(2)] by (auto simp: claimable_def)
  have chk: "run_types r" "run_checks r" using schema_run [OF assms(1) r(1)] by auto
  then obtain l where l: "LeaseDuration_from_pg_interval (r_lease_duration r) = Inr l"
    using lease_check_parses [of "r_lease_duration r"] by (auto simp: run_checks_def)
  have "0 < r_attempt_count r + 1" "r_attempt_count r + 1 < 2 ^ 32"
    using pending_row(1,2) [OF assms(1) r] chk(1) by (auto simp: run_types_def int_range_defs)
  then have u: "uint (word_of_int (r_attempt_count r + 1) :: u32) = r_attempt_count r + 1"
    unfolding uint_word_of_int by (intro mod_pos_pos_trivial) simp_all
  then have "(word_of_int (r_attempt_count r + 1) :: u32) \<noteq> 0"
    using \<open>0 < r_attempt_count r + 1\<close> by (metis less_irrefl uint_0_eq)
  then show thesis
    using that [OF _ l u] l pending_row(1) [OF assms(1) r]
    by (simp add: decode_claimed_def claimed_row_def u32_try_from_i32_def non_zero_def)
qed

lemma decoded_all:
  assumes sch: "schema_ok db"
  shows "\<exists>cs. collect_results decode_claimed (claimed_rows env names n db) = Inr cs"
proof -
  have "\<exists>c. decode_claimed row = Inr c" if row: "row \<in> set (claimed_rows env names n db)" for row
  proof -
    obtain r where r: "r \<in> set (claim_candidates env names n db)" "row = claimed_row env r"
      using row by (auto simp: claimed_rows_def)
    then show ?thesis by (metis decode_claimed_ok [OF sch r(1)])
  qed
  then have "collect_results decode_claimed (claimed_rows env names n db) =
      Inr (map (\<lambda>row. projr (decode_claimed row)) (claimed_rows env names n db))"
    by (intro collect_results_all_ok) (metis sum.sel(2))
  then show ?thesis by blast
qed

text \<open>
  The result of a claim: an error that changed nothing, or a committed batch, which the call returns when
  it can read it and loses otherwise.
\<close>

lemma i64_limit:
  "uint limit \<le> i64_max \<Longrightarrow> i64_try_from_usize limit = Some (uint limit)"
  by (simp add: i64_try_from_usize_def)

lemma claim_batch_cases:
  assumes inv: "db_inv db"
  obtains
    (Err) e where "claim_batch env w names limit db = (Inl e, db)"
      "e = Config ''claim batch is too large'' \<and> i64_max < uint limit \<or> (\<exists>k. e = Database (DatabaseError k))"
  | (Lost) "claim_batch env w names limit db = (Inl decode_error, claimed_db env names (unat limit) w db)"
      "schema_ok (claimed_db env names (unat limit) w db)"
      "\<not> claim_readable env (claim_candidates env names (unat limit) db)"
  | (Ok) cs where "claim_batch env w names limit db =
        (Inr cs, claimed_db env names (unat limit) w db)"
      "schema_ok (claimed_db env names (unat limit) w db)"
      "claim_readable env (claim_candidates env names (unat limit) db)"
      "list_all2 (\<lambda>row c. decode_claimed row = Inr c) (claimed_rows env names (unat limit) db) cs"
proof (cases "uint limit \<le> i64_max")
  case False
  then show thesis using Err by (simp add: claim_batch_def i64_try_from_usize_def)
next
  case True
  have sch: "schema_ok db" using inv by (simp add: db_inv_def)
  let ?n = "unat limit" and ?db = "claimed_db env names (unat limit) w db"
  have n: "i64_try_from_usize limit = Some (uint limit)" "nat (uint limit) = ?n"
    using True by (simp_all add: i64_try_from_usize_def)
  show thesis
  proof (cases "CLAIM_BATCH env names ?n w db")
    case (Inl e)
    then have "\<exists>k. e = Database (DatabaseError k)"
      by (auto simp: CLAIM_BATCH_eq and_then_Inl_iff dest: checked_Inl_database bind_texts_Inl_database)
    then show thesis using Err Inl by (simp add: claim_batch_def n transaction_def)
  next
    case (Inr p)
    then have ok: "schema_ok ?db" "p = (claimed_rows env names ?n db, ?db)"
      by (auto simp: CLAIM_BATCH_eq and_then_Inr_iff)
    obtain cs where cs: "collect_results decode_claimed (claimed_rows env names ?n db) = Inr cs"
      using decoded_all [OF sch] by blast
    have claim: "claim_batch env w names limit db =
        (if claim_readable env (claim_candidates env names ?n db) then Inr cs else Inl decode_error, ?db)"
      using ok Inr cs by (simp add: claim_batch_def n transaction_def load_claimed_rows)
    show thesis
    proof (cases "claim_readable env (claim_candidates env names ?n db)")
      case True
      then show thesis using Ok claim ok cs by (simp add: collect_results_Inr_iff)
    next
      case False
      then show thesis using Lost claim ok by simp
    qed
  qed
qed

lemma claim_batch_inv:
  assumes "db_inv db"
  shows "db_inv (snd (claim_batch env w names limit db))"
  using assms
proof (cases rule: claim_batch_cases [of db env w names limit])
  case (Ok cs)
  then show ?thesis using claimed_db_attempts_inv [OF assms] by (simp add: db_inv_def)
next
  case Lost
  then show ?thesis using claimed_db_attempts_inv [OF assms] by (simp add: db_inv_def)
qed (use assms in simp)

section \<open>Claiming is safe\<close>

lemma claimed_db_effect:
  assumes sch: "schema_ok db"
  shows "safe_effect db (claimed_db env names n w db)"
proof (rule safe_effect_update [OF sch])
  fix r assume r: "r \<in> set (runs db)" "r_id r \<in> r_id ` set (claim_candidates env names n db)"
  then have "r \<in> set (claim_candidates env names n db)" using candidate_by_id [OF sch] by blast
  from claim_candidatesD(2) [OF this] have p: "r_state r = SPending" by (simp add: claimable_def)
  then have "task_step (row_view r) (row_view (claim_update env w r))"
    using pending_row(2) [OF sch r(1) p] by (simp add: claim_update_def task_step.claim)
  then show "r_id (claim_update env w r) = r_id r \<and>
      task_step\<^sup>=\<^sup>= (row_view r) (row_view (claim_update env w r)) \<and>
      description (claim_update env w r) = description r"
    by (simp add: claim_update_def description_def)
qed (simp_all add: claimed_db_def)

interpretation claim_op: safe_operation "\<lambda>db. snd (claim_batch env w names limit db)"
  for env w names limit
proof
  fix db :: "'v db" assume inv: "db_inv db"
  then show "db_inv (snd (claim_batch env w names limit db))" by (rule claim_batch_inv)
  have "schema_ok db" using inv by (simp add: db_inv_def)
  with inv show "safe_effect db (snd (claim_batch env w names limit db))"
    by (cases rule: claim_batch_cases [of db env w names limit])
      (simp_all add: claimed_db_effect safe_effect_refl)
qed

section \<open>What a claim returns\<close>

lemma decoded_claims:
  assumes "list_all2 (\<lambda>row c. decode_claimed row = Inr c) rows cs"
  shows "map c_run_id cs = map cr_run_id rows"
  using assms by (induction rule: list_all2_induct) (auto simp: decode_claimed_def and_then_Inr_iff)

lemma claimed_ids:
  assumes "list_all2 (\<lambda>row c. decode_claimed row = Inr c) (claimed_rows env names n db) cs" "schema_ok db"
  shows "c_run_id ` set cs = r_id ` set (claim_candidates env names n db)"
    and "length cs = length (claim_candidates env names n db)" "distinct (map c_run_id cs)"
proof -
  let ?C = "claim_candidates env names n db"
  have ids: "map c_run_id cs = map cr_run_id (claimed_rows env names n db)"
    by (rule decoded_claims [OF assms(1)])
  have ms: "mset (map cr_run_id (claimed_rows env names n db)) = mset (map r_id ?C)"
    by (simp add: claimed_rows_def mset_map multiset.map_comp comp_def claimed_row_def)
  show "c_run_id ` set cs = r_id ` set ?C"
    using ids ms by (metis list.set_map mset_eq_setD)
  show "length cs = length ?C" using ids ms by (metis length_map mset_eq_length)
  show "distinct (map c_run_id cs)"
    unfolding ids using distinct_candidates [OF assms(2)] mset_eq_imp_distinct_iff [OF ms] by blast
qed

lemma claimed_decoded:
  assumes "list_all2 (\<lambda>row c. decode_claimed row = Inr c) (claimed_rows env names n db) cs"
    and sch: "schema_ok db" and c: "c \<in> set cs"
  obtains r where "r \<in> set (claim_candidates env names n db)" "c_run_id c = r_id r"
    "c_job_name c = r_job_name r" "c_job_args c = r_job_args r" "c_scheduled_for c = r_scheduled_for r"
    "uint (c_attempt c) = r_attempt_count r + 1" "c_lease_token c = LeaseToken (env_token env (r_id r))"
    "c_lease_expires_at c = claim_expiry env r"
    "LeaseDuration_to_pg_interval (c_lease_duration c) = r_lease_duration r"
proof -
  obtain i where i: "i < length cs" "cs ! i = c" using c by (auto simp: in_set_conv_nth)
  let ?row = "claimed_rows env names n db ! i"
  have row: "?row \<in> set (claimed_rows env names n db)" "decode_claimed ?row = Inr c"
    using assms(1) i by (auto simp: list_all2_conv_all_nth)
  then obtain r where r: "r \<in> set (claim_candidates env names n db)" "?row = claimed_row env r"
    by (auto simp: claimed_rows_def)
  show thesis
    by (rule decode_claimed_ok [OF sch r(1)])
      (use row(2) r that in \<open>auto simp: lease.from_pg_iff lease.to_pg_eq from_microseconds_def\<close>)
qed

lemma claimed_view:
  assumes sch: "schema_ok db" and sch': "schema_ok (claimed_db env names n w db)"
  shows "r \<in> set (claim_candidates env names n db) \<Longrightarrow> view_of (claimed_db env names n w db) (r_id r) =
      TRunning (r_attempt_count r + 1) (r_max_attempts r) (LeaseToken (env_token env (r_id r)))"
    and "i \<notin> r_id ` set (claim_candidates env names n db) \<Longrightarrow>
      view_of (claimed_db env names n w db) i = view_of db i"
proof -
  let ?C = "claim_candidates env names n db"
  assume r: "r \<in> set ?C"
  then have "claim_update env w r \<in> set (runs (claimed_db env names n w db))"
    using claim_candidatesD(1) [OF r] by (auto simp: claimed_db_def set_update_where)
  from view_of_row [OF sch' this] show "view_of (claimed_db env names n w db) (r_id r) =
      TRunning (r_attempt_count r + 1) (r_max_attempts r) (LeaseToken (env_token env (r_id r)))"
    by (simp add: claim_update_def)
next
  let ?C = "claim_candidates env names n db"
  assume i: "i \<notin> r_id ` set ?C"
  have "find (\<lambda>r. r_id r = i) (update_where (\<lambda>r. r_id r \<in> r_id ` set ?C) (claim_update env w) (runs db)) =
      map_option (\<lambda>r. if r_id r \<in> r_id ` set ?C then claim_update env w r else r)
        (find (\<lambda>r. r_id r = i) (runs db))"
    by (rule find_update_where) (simp add: claim_update_def)
  then show "view_of (claimed_db env names n w db) i = view_of db i"
    using i by (cases "find (\<lambda>r. r_id r = i) (runs db)")
      (auto simp: view_of_def claimed_db_def dest: find_key_Some(2))
qed

text \<open>The tokens of a claim are new and become those of the recorded attempts.\<close>

lemma recorded_token: "a_lease_token (recorded_attempt env w r) = LeaseToken (env_token env (r_id r))"
  by (simp add: recorded_attempt_def)

lemma decoded_tokens:
  assumes "list_all2 (\<lambda>row c. decode_claimed row = Inr c) rows cs"
  shows "map c_lease_token cs = map cr_lease_token rows"
  using assms by (induction rule: list_all2_induct) (auto simp: decode_claimed_def and_then_Inr_iff)

lemma claim_batch_tokens:
  assumes inv: "db_inv db" and claim: "claim_batch env w names limit db = (Inr cs, db')"
  shows "a_lease_token ` set (attempts db') = a_lease_token ` set (attempts db) \<union> c_lease_token ` set cs"
    and "a_lease_token ` set (attempts db) \<inter> c_lease_token ` set cs = {}"
    and "distinct (map c_lease_token cs)"
proof -
  let ?C = "claim_candidates env names (unat limit) db"
  from inv have db': "db' = claimed_db env names (unat limit) w db" "schema_ok db'"
      "list_all2 (\<lambda>row c. decode_claimed row = Inr c) (claimed_rows env names (unat limit) db) cs"
    by (cases rule: claim_batch_cases [of db env w names limit]; use claim in simp)+
  have ms: "mset (map c_lease_token cs) = mset (map (\<lambda>r. LeaseToken (env_token env (r_id r))) ?C)"
    unfolding decoded_tokens [OF db'(3)]
    by (simp add: claimed_rows_def mset_map multiset.map_comp comp_def claimed_row_def)
  have toks: "c_lease_token ` set cs = (\<lambda>r. LeaseToken (env_token env (r_id r))) ` set ?C"
    using ms by (metis list.set_map mset_eq_setD)
  have dist: "distinct (map a_lease_token (attempts db) @ map (\<lambda>r. LeaseToken (env_token env (r_id r))) ?C)"
    using tokens_distinct [OF db'(2)] by (simp add: db'(1) claimed_db_def comp_def recorded_token)
  show "a_lease_token ` set (attempts db') = a_lease_token ` set (attempts db) \<union> c_lease_token ` set cs"
    unfolding toks by (simp add: db'(1) claimed_db_def image_Un image_image recorded_token)
  show "a_lease_token ` set (attempts db) \<inter> c_lease_token ` set cs = {}"
    unfolding toks using dist by simp
  show "distinct (map c_lease_token cs)" using dist mset_eq_imp_distinct_iff [OF ms] by simp
qed


text \<open>
  C13: claims follow the queue's order. A claimable, unlocked task is left behind only when the batch
  is full, and then every claimed task ranks before it: higher priority first, then earlier
  availability, then the smaller id.
\<close>

theorem claim_batch_order:
  assumes "db_inv db" "claim_batch env w names limit db = (Inr cs, db')"
    and "r \<in> set (runs db)" "claimable env names r" "\<not> env_run_locked env (r_id r)"
    and "r_id r \<notin> c_run_id ` set cs"
  shows "length cs = unat limit \<and>
    (\<forall>c \<in> set cs. \<exists>s \<in> set (runs db). r_id s = c_run_id c \<and> r_state s = SPending \<and>
       (- r_priority s, r_available_at s, r_id s) \<le> (- r_priority r, r_available_at r, r_id r))"
  using assms(1)
proof (cases rule: claim_batch_cases [of db env w names limit])
  case (Err e)
  then show ?thesis using assms(2) by simp
next
  case Lost
  then show ?thesis using assms(2) by simp
next
  case (Ok cs')
  then have cs: "cs' = cs" using assms(2) by simp
  have sch: "schema_ok db" using assms(1) by (simp add: db_inv_def)
  let ?C = "claim_candidates env names (unat limit) db"
  let ?p = "\<lambda>r. claimable env names r \<and> \<not> env_run_locked env (r_id r)"
  have out: "r \<notin> set ?C" using claimed_ids(1) [OF Ok(4) sch] assms(6) cs by auto
  then have best: "length ?C = unat limit" "\<And>s. s \<in> set ?C \<Longrightarrow> claim_rank s \<le> claim_rank r"
    using select_ordered_best [of r "runs db" ?p claim_rank "unat limit"] assms(3-5)
    by (auto simp: claim_candidates_def)
  have "\<exists>s \<in> set (runs db). r_id s = c_run_id c \<and> r_state s = SPending \<and>
       (- r_priority s, r_available_at s, r_id s) \<le> (- r_priority r, r_available_at r, r_id r)"
    if c: "c \<in> set cs" for c
  proof -
    obtain s where s: "s \<in> set ?C" "c_run_id c = r_id s"
      using claimed_decoded [OF Ok(4) sch, of c] c cs by metis
    then show ?thesis
      using best(2) [OF s(1)] claim_candidatesD(1,2) [OF s(1)]
      by (intro bexI [of _ s]) (auto simp: claim_rank_def claimable_def)
  qed
  then show ?thesis using best(1) claimed_ids(2) [OF Ok(4) sch] cs by simp
qed


section \<open>When a claim succeeds, and when it cannot\<close>

text \<open>A worker id and job names that PostgreSQL can store.\<close>

definition claim_texts_ok :: "rust_string list \<Rightarrow> WorkerId \<Rightarrow> bool" where
  "claim_texts_ok names w \<longleftrightarrow> pg_text (WorkerId_as_str w) \<and> (\<forall>n \<in> set names. pg_text n)"

text \<open>Good clocks, fresh tokens and representable expiries for the candidates of a claim.\<close>

definition claim_env_ok :: "env \<Rightarrow> 'v run_row list \<Rightarrow> 'v db \<Rightarrow> bool" where
  "claim_env_ok env cs db \<longleftrightarrow>
     (\<forall>r \<in> set cs. pg_timestamp (claim_expiry env r) \<and>
        env_clock env StartedClock (r_id r) < claim_expiry env r \<and>
        LeaseToken (env_token env (r_id r)) \<notin> a_lease_token ` set (attempts db)) \<and>
     distinct (map (\<lambda>r. env_token env (r_id r)) cs)"

lemma claim_update_ok:
  assumes "schema_ok db" "r \<in> set (runs db)" "r_state r = SPending" "env_ok env"
    "identifier_ok (WorkerId_as_str w)" "pg_text (WorkerId_as_str w)" "pg_timestamp (claim_expiry env r)"
    "env_clock env StartedClock (r_id r) < claim_expiry env r"
  shows "run_types (claim_update env w r) \<and> run_checks (claim_update env w r)"
proof -
  have "name_check pg_space (WorkerId_as_str w)"
    using assms(5) pg_space_whitespace by (rule identifier_name_check)
  then show ?thesis
    using schema_run [OF assms(1,2)] pending_row [OF assms(1-3)] assms(3,4,6-8)
    by (auto simp: claim_update_def run_types_def run_checks_def attempts_check_def state_check_def
        int_range_defs)
qed

lemma recorded_attempt_ok:
  assumes "schema_ok db" "r \<in> set (runs db)" "r_state r = SPending" "env_ok env"
    "identifier_ok (WorkerId_as_str w)" "pg_text (WorkerId_as_str w)" "pg_timestamp (claim_expiry env r)"
    "env_clock env StartedClock (r_id r) < claim_expiry env r"
  shows "attempt_types (recorded_attempt env w r) \<and> attempt_checks (recorded_attempt env w r)"
proof -
  have "name_check pg_space (WorkerId_as_str w)"
    using assms(5) pg_space_whitespace by (rule identifier_name_check)
  then show ?thesis
    using schema_run [OF assms(1,2)] pending_row [OF assms(1-3)] assms(4,6-8)
    by (auto simp: recorded_attempt_def attempt_types_def attempt_checks_def run_types_def int_range_defs)
qed

text \<open>Its two statements, one after the other: first the tasks, then the attempts.\<close>

lemma claimed_runs_schema:
  assumes sch: "schema_ok db" and env: "env_ok env" "identifier_ok (WorkerId_as_str w)" "pg_text (WorkerId_as_str w)"
    and good: "claim_env_ok env (claim_candidates env names n db) db"
  shows "schema_ok (db\<lparr>runs := update_where (\<lambda>r. r_id r \<in> r_id ` set (claim_candidates env names n db))
    (claim_update env w) (runs db)\<rparr>)"
proof (rule schema_update_runs [OF sch])
  fix r assume r: "r \<in> set (runs db)" "r_id r \<in> r_id ` set (claim_candidates env names n db)"
  then have C: "r \<in> set (claim_candidates env names n db)" using candidate_by_id [OF sch] by blast
  then have p: "r_state r = SPending" using claim_candidatesD(2) by (fastforce simp: claimable_def)
  show "run_types (claim_update env w r) \<and> run_checks (claim_update env w r) \<and>
      r_id (claim_update env w r) = r_id r \<and> r_job_id (claim_update env w r) = r_job_id r \<and>
      r_scheduled_for (claim_update env w r) = r_scheduled_for r \<and>
      r_job_name (claim_update env w r) = r_job_name r \<and>
      r_deduplication_key (claim_update env w r) = r_deduplication_key r"
    using claim_update_ok [OF sch r(1) p env] good C
    by (simp add: claim_env_ok_def) (simp add: claim_update_def)
qed

lemma claimed_db_schema:
  assumes inv: "db_inv db" and env: "env_ok env" "identifier_ok (WorkerId_as_str w)" "pg_text (WorkerId_as_str w)"
    and good: "claim_env_ok env (claim_candidates env names n db) db"
  shows "schema_ok (claimed_db env names n w db)"
proof -
  let ?C = "claim_candidates env names n db"
  let ?S = "r_id ` set ?C"
  let ?db1 = "db\<lparr>runs := update_where (\<lambda>r. r_id r \<in> ?S) (claim_update env w) (runs db)\<rparr>"
  have sch: "schema_ok db" using inv by (simp add: db_inv_def)
  have ai: "attempts_inv (runs db) (attempts db)" using inv by (simp add: db_inv_def)
  have pend: "r \<in> set (runs db)" "r_state r = SPending" if "r \<in> set ?C" for r
    using claim_candidatesD(1,2) [OF that] by (auto simp: claimable_def)
  have db1: "schema_ok ?db1" by (rule claimed_runs_schema [OF sch env good])
  have "schema_ok (?db1\<lparr>attempts := attempts ?db1 @ map (recorded_attempt env w) ?C\<rparr>)"
  proof (rule schema_insert_attempts [OF db1])
    fix a assume "a \<in> set (map (recorded_attempt env w) ?C)"
    then obtain r where r: "r \<in> set ?C" "a = recorded_attempt env w r" by auto
    have "attempt_types a \<and> attempt_checks a"
      using recorded_attempt_ok [OF sch pend(1,2) env] good r by (simp add: claim_env_ok_def)
    moreover have "a_run_id a \<in> r_id ` set (runs ?db1)"
    proof -
      have "map r_id (runs ?db1) = map r_id (runs db)"
        using map_key_update_where [of "runs db" "\<lambda>r. r_id r \<in> ?S" r_id "claim_update env w"]
        by (simp add: claim_update_def)
      then have "r_id ` set (runs ?db1) = r_id ` set (runs db)" by (metis list.set_map)
      then show ?thesis using r(2) pend(1) [OF r(1)] by (simp add: recorded_attempt_def)
    qed
    moreover have "(a_run_id a, a_attempt_number a) \<notin> attempt_keys (attempts db)"
      using attempts_invD(3) [OF ai pend(1) [OF r(1)]] r(2) by (simp add: recorded_attempt_def)
    moreover have "a_lease_token a \<notin> a_lease_token ` set (attempts db)"
      using good r by (simp add: claim_env_ok_def recorded_attempt_def)
    ultimately show "attempt_types a \<and> attempt_checks a \<and> a_run_id a \<in> r_id ` set (runs ?db1) \<and>
        (a_run_id a, a_attempt_number a) \<notin> attempt_keys (attempts ?db1) \<and>
        a_lease_token a \<notin> a_lease_token ` set (attempts ?db1)" by simp
  next
    show "distinct (map a_run_id (map (recorded_attempt env w) ?C))"
      using distinct_candidates [OF sch] by (simp add: comp_def recorded_attempt_def)
    show "distinct (map a_lease_token (map (recorded_attempt env w) ?C))"
      using good by (simp add: comp_def recorded_attempt_def claim_env_ok_def distinct_map inj_on_def)
  qed
  then show ?thesis by (simp add: claimed_db_def)
qed

lemma claim_batch_commits:
  assumes "db_inv db" "env_ok env" "identifier_ok (WorkerId_as_str w)" "uint limit \<le> i64_max"
    and "claim_env_ok env (claim_candidates env names (unat limit) db) db" "claim_texts_ok names w"
  obtains cs where "claim_batch env w names limit db =
      (if claim_readable env (claim_candidates env names (unat limit) db) then Inr cs else Inl decode_error,
       claimed_db env names (unat limit) w db)"
    "list_all2 (\<lambda>row c. decode_claimed row = Inr c) (claimed_rows env names (unat limit) db) cs"
proof -
  have "checked (claimed_db env names (unat limit) w db) = Inr (claimed_db env names (unat limit) w db)"
    using claimed_db_schema [OF assms(1-3) _ assms(5)] assms(6) by (simp add: claim_texts_ok_def)
  moreover obtain cs where "collect_results decode_claimed (claimed_rows env names (unat limit) db) = Inr cs"
    using decoded_all assms(1) by (metis db_inv_def)
  ultimately show thesis
    using that [of cs] assms(6)
    by (simp add: claim_batch_def i64_limit [OF assms(4)] CLAIM_BATCH_eq claim_texts_ok_def transaction_def
        load_claimed_rows collect_results_Inr_iff)
qed

lemma claim_batch_Ok:
  assumes "db_inv db" "env_ok env" "identifier_ok (WorkerId_as_str w)" "uint limit \<le> i64_max"
    and "claim_env_ok env (claim_candidates env names (unat limit) db) db" "claim_texts_ok names w"
    and "claim_readable env (claim_candidates env names (unat limit) db)"
  obtains cs where "claim_batch env w names limit db = (Inr cs, claimed_db env names (unat limit) w db)"
    "list_all2 (\<lambda>row c. decode_claimed row = Inr c) (claimed_rows env names (unat limit) db) cs"
  by (rule claim_batch_commits [OF assms(1-6)]) (rule that, simp_all add: assms(7))

text \<open>
  C14: a claim succeeds. With a valid worker id, names that PostgreSQL can store, clocks and lease expiries
  in the range of \<open>timestamptz\<close>, tokens that do not collide, and candidates whose expiry, scheduled time and
  payload the client can read back, \<open>claim_batch\<close> returns exactly the candidates, and it returns at least one
  whenever a claimable, unlocked task exists and the limit is positive.
\<close>

theorem claim_batch_succeeds:
  assumes "db_inv db" "env_ok env" "identifier_ok (WorkerId_as_str w)" "uint limit \<le> i64_max"
    and "claim_env_ok env (claim_candidates env names (unat limit) db) db" "claim_texts_ok names w"
    and "claim_readable env (claim_candidates env names (unat limit) db)"
  shows "\<exists>cs db'. claim_batch env w names limit db = (Inr cs, db') \<and>
    c_run_id ` set cs = r_id ` set (claim_candidates env names (unat limit) db) \<and>
    (0 < unat limit \<and> (\<exists>r \<in> set (runs db). claimable env names r \<and> \<not> env_run_locked env (r_id r)) \<longrightarrow>
       cs \<noteq> [])"
proof (rule claim_batch_Ok [OF assms])
  fix cs
  assume Ok: "claim_batch env w names limit db = (Inr cs, claimed_db env names (unat limit) w db)"
    "list_all2 (\<lambda>row c. decode_claimed row = Inr c) (claimed_rows env names (unat limit) db) cs"
  have sch: "schema_ok db" using assms(1) by (simp add: db_inv_def)
  have "0 < unat limit \<and> (\<exists>r \<in> set (runs db). claimable env names r \<and> \<not> env_run_locked env (r_id r)) \<longrightarrow>
      claim_candidates env names (unat limit) db \<noteq> []"
    unfolding claim_candidates_def by (auto simp: select_ordered_eq_Nil)
  then show ?thesis using Ok(1) claimed_ids [OF Ok(2) sch] by auto
qed

lemma sample_candidates:
  "claim_candidates (sample_env 200) [JobName_as_str sample_name] n sample_db = take n [sample_pending]"
  "claim_candidates (sample_env 200) [JobName_as_str sample_name] (Suc 0) sample_db2 = [sample_pending]"
  by (simp_all add: claim_candidates_def select_ordered_def claimable_def claim_rank_def sample_db_def
      sample_db2_def sample_rows)

lemma sample_worker_ok: "identifier_ok (WorkerId_as_str sample_worker)"
  by (simp add: sample_worker_def identifier_ok_def MAX_IDENTIFIER_LEN_def is_whitespace_def)

lemma sample_claim_texts: "claim_texts_ok [JobName_as_str sample_name] sample_worker"
  by (simp add: claim_texts_ok_def)

lemma sample_claim_env:
  "claim_env_ok (sample_env 200) [sample_pending] sample_db"
  "claim_env_ok (sample_env 200) [sample_pending] sample_db2"
  by (simp_all add: claim_env_ok_def claim_expiry_def sample_pending_def sample_task_def sample_lease_def
      pg_timestamp_def sample_db_def sample_db2_def sample_open_def sample_closed_def)

lemma sample_readable: "claim_readable (sample_env 200) [sample_pending]"
  by (simp add: claim_readable_def claim_expiry_def sample_pending_def sample_task_def sample_lease_def
      chrono_timestamp_def)

theorem claim_batch_succeeds_witness:
  "\<exists>cs db'. claim_batch (sample_env 200) sample_worker [JobName_as_str sample_name] 5 sample_db = (Inr cs, db') \<and>
     c_run_id ` set cs = {RunId 1}"
proof -
  have "claim_env_ok (sample_env 200) (claim_candidates (sample_env 200) [JobName_as_str sample_name] (unat (5 :: usize)) sample_db) sample_db"
    using sample_claim_env(1) by (simp add: sample_candidates)
  moreover have "uint (5 :: usize) \<le> i64_max" by (simp add: i64_max_def)
  moreover have "claim_readable (sample_env 200) (claim_candidates (sample_env 200) [JobName_as_str sample_name] (unat (5 :: usize)) sample_db)"
    using sample_readable by (simp add: sample_candidates)
  ultimately show ?thesis
    using claim_batch_succeeds [OF sample_inv sample_200 sample_worker_ok _ _ sample_claim_texts, of 5]
    by (auto simp: sample_candidates sample_pending_def sample_task_def)
qed

theorem claim_batch_order_witness:
  "\<exists>cs db'. claim_batch (sample_env 200) sample_worker [JobName_as_str sample_name] 1 sample_db2 = (Inr cs, db') \<and>
     length cs = 1"
proof -
  let ?env = "sample_env 200" and ?names = "[JobName_as_str sample_name]"
  have C: "claim_candidates ?env ?names (unat (1 :: usize)) sample_db2 = [sample_pending]"
    by (simp add: sample_candidates)
  have sch: "schema_ok sample_db2" using sample_inv2 by (simp add: db_inv_def)
  have lim: "uint (1 :: usize) \<le> i64_max" by (simp add: i64_max_def)
  have env: "claim_env_ok ?env (claim_candidates ?env ?names (unat (1 :: usize)) sample_db2) sample_db2"
    unfolding C by (rule sample_claim_env)
  obtain cs where cs: "claim_batch ?env sample_worker ?names 1 sample_db2 =
      (Inr cs, claimed_db ?env ?names (unat (1 :: usize)) sample_worker sample_db2)"
    "list_all2 (\<lambda>row c. decode_claimed row = Inr c) (claimed_rows ?env ?names (unat (1 :: usize)) sample_db2) cs"
    by (rule claim_batch_Ok [OF sample_inv2 sample_200 sample_worker_ok lim env sample_claim_texts])
      (use sample_readable C in simp)
  have "r_id (sample_task 4) \<notin> c_run_id ` set cs"
    using claimed_ids(1) [OF cs(2) sch] unfolding C by (simp add: sample_pending_def sample_task_def)
  moreover have "sample_task 4 \<in> set (runs sample_db2)" "claimable ?env ?names (sample_task 4)"
    by (simp_all add: sample_db2_def claimable_def sample_task_def)
  ultimately have "length cs = unat (1 :: usize)"
    using claim_batch_order [OF sample_inv2 cs(1), of "sample_task 4"] by simp
  then show ?thesis using cs(1) by simp
qed

text \<open>A claim whose answer is lost: the expiry lies after chrono's last year.\<close>

lemma sample_far_claim:
  "claim_candidates (sample_env 200) [JobName_as_str sample_name] (unat (5 :: usize)) (sample_leased_db far_lease) =
     [sample_leased far_lease]"
  "claim_env_ok (sample_env 200) [sample_leased far_lease] (sample_leased_db far_lease)"
  "\<not> claim_readable (sample_env 200) [sample_leased far_lease]"
  by (simp_all add: claim_candidates_def select_ordered_def claimable_def sample_leased_db_def sample_leased_def
      sample_task_def claim_env_ok_def claim_readable_def claim_expiry_def far_lease_def pg_timestamp_def
      chrono_timestamp_def empty_db_def)


text \<open>
  One name or worker id with U+0000, which the identifier policy lets through, makes every claim fail,
  whatever tasks there are.
\<close>

lemma claim_batch_unstorable:
  assumes "uint limit \<le> i64_max" "\<not> claim_texts_ok names w"
  shows "claim_batch env w names limit db = (Inl value_error, db)"
proof -
  have "bind_texts (WorkerId_as_str w # names) = Inl value_error"
    using assms(2) by (auto simp: claim_texts_ok_def bind_texts_def)
  then show ?thesis
    using assms(1) by (simp add: claim_batch_def i64_try_from_usize_def CLAIM_BATCH_eq transaction_def)
qed

lemma policy_admits_nul: "JobName_try_from [0] = Inr (JobName [0]) \<and> WorkerId_try_from [0] = Inr (WorkerId [0])"
  using validate_identifier_ok [of "[0]"]
  by (simp add: JobName_try_from_def WorkerId_try_from_def identifier_ok_def MAX_IDENTIFIER_LEN_def is_whitespace_def)

lemma claim_batch_overflow:
  assumes "uint limit \<le> i64_max" "r \<in> set (claim_candidates env names (unat limit) db)"
    and "\<not> pg_timestamp (env_clock env ExpiresClock (r_id r) + iv_microseconds (r_lease_duration r))"
  shows "claim_batch env w names limit db = (Inl value_error, db)"
proof -
  let ?db = "claimed_db env names (unat limit) w db"
  have "claim_update env w r \<in> set (runs ?db)"
    using claim_candidatesD(1) [OF assms(2)] assms(2) by (auto simp: claimed_db_def set_update_where)
  moreover have "\<not> run_types (claim_update env w r)"
    using assms(3) by (simp add: run_types_def claim_update_def claim_expiry_def)
  ultimately have "\<not> types_ok ?db" by (auto simp: types_ok_def)
  then show ?thesis
    using assms(1)
    by (simp add: claim_batch_def i64_try_from_usize_def CLAIM_BATCH_eq bind_texts_def checked_def transaction_def)
qed

text \<open>
  C40: what blocks a whole batch. A lease that reaches beyond the range of \<open>timestamptz\<close>, although
  \<open>LeaseDuration\<close> accepts such leases (up to \<open>i64::MAX\<close> microseconds), and a registered name or worker id with
  U+0000, although the identifier policy accepts it: when one candidate's expiry is not representable, or
  one text cannot be stored, \<open>claim_batch\<close> returns a database error and claims nothing.
\<close>

theorem claim_batch_blocked:
  assumes "uint limit \<le> i64_max"
    and "(\<exists>r \<in> set (claim_candidates env names (unat limit) db).
        \<not> pg_timestamp (env_clock env ExpiresClock (r_id r) + iv_microseconds (r_lease_duration r))) \<or>
      \<not> pg_text (WorkerId_as_str w) \<or> (\<exists>n \<in> set names. \<not> pg_text n)"
  shows "claim_batch env w names limit db = (Inl (Database (DatabaseError UnknownKind)), db)"
proof (cases "claim_texts_ok names w")
  case True
  then show ?thesis using assms(2) claim_batch_overflow [OF assms(1)] by (auto simp: claim_texts_ok_def)
qed (rule claim_batch_unstorable [OF assms(1)])

theorem claim_batch_blocked_witness:
  "db_inv sample_endless_db \<and> LeaseDuration_from_pg_interval (r_lease_duration sample_endless) = Inr (LeaseDuration i64_max) \<and>
   claim_batch (sample_env 200) sample_worker [JobName_as_str sample_name] 5 sample_endless_db =
     (Inl (Database (DatabaseError UnknownKind)), sample_endless_db) \<and>
   JobName_try_from [0] = Inr (JobName [0]) \<and>
   claim_batch (sample_env 200) sample_worker [JobName_as_str (JobName [0])] 5 sample_db =
     (Inl (Database (DatabaseError UnknownKind)), sample_db)"
proof -
  have "sample_endless \<in> set (claim_candidates (sample_env 200) [JobName_as_str sample_name] (unat (5 :: usize)) sample_endless_db)"
    by (simp add: claim_candidates_def select_ordered_def claimable_def sample_leased_db_def
        sample_leased_def sample_task_def)
  moreover have "uint (5 :: usize) \<le> i64_max" by (simp add: i64_max_def)
  moreover have "\<not> pg_timestamp (env_clock (sample_env 200) ExpiresClock (r_id sample_endless) +
      iv_microseconds (r_lease_duration sample_endless))"
    by (simp add: pg_timestamp_def sample_leased_def i64_max_def)
  ultimately have "claim_batch (sample_env 200) sample_worker [JobName_as_str sample_name] 5 sample_endless_db =
      (Inl (Database (DatabaseError UnknownKind)), sample_endless_db)"
    by (intro claim_batch_blocked disjI1 bexI)
  moreover have "claim_batch (sample_env 200) sample_worker [JobName_as_str (JobName [0])] 5 sample_db =
      (Inl (Database (DatabaseError UnknownKind)), sample_db)"
    by (rule claim_batch_blocked) (simp_all add: i64_max_def)
  ultimately show ?thesis
    using sample_endless_inv by (simp add: policy_admits_nul lease.from_pg_iff sample_leased_def i64_max_def)
qed

end
