(* ===== verification/Finalize.thy ===== *)
theory Finalize
  imports Samples
begin

text \<open>
  \<^verbatim>\<open>src/src/store/finalize.rs\<close>: completion, failure and lease renewal. All three are guarded by the
  same predicate on the task row (running, this token, unexpired); the locale \<open>leased_operation\<close>
  states what that guard buys, and is interpreted on each of the three operations.
\<close>

section \<open>Statements\<close>

definition live_lease :: "env \<Rightarrow> RunId \<Rightarrow> LeaseToken \<Rightarrow> 'v run_row \<Rightarrow> bool" where
  "live_lease env run_id token r \<longleftrightarrow>
     r_id r = run_id \<and> r_state r = SRunning \<and> r_lease_token r = Some token \<and>
     (case r_lease_expires_at r of
        None \<Rightarrow> False | Some e \<Rightarrow> e > env_clock env WhereClock run_id)"

definition finalize_update ::
    "env \<Rightarrow> StoredRunState \<Rightarrow> rust_string option \<Rightarrow> 'v run_row \<Rightarrow> 'v run_row" where
  "finalize_update env state err r =
     r\<lparr>r_state := state, r_worker_id := None, r_lease_token := None, r_lease_expires_at := None,
       r_started_at := None, r_finished_at := Some (env_clock env FinishedClock (r_id r)),
       r_last_error := err, r_updated_at := env_clock env UpdatedClock (r_id r)\<rparr>"

definition FINALIZE ::
    "env \<Rightarrow> RunId \<Rightarrow> LeaseToken \<Rightarrow> StoredRunState \<Rightarrow> rust_string option \<Rightarrow> 'v db \<Rightarrow>
       SchedulerError + RunId list \<times> 'v db" where
  "FINALIZE env run_id token state err db =
     and_then (bind_texts (opt_text err)) (\<lambda>_.
     and_then (checked (db\<lparr>runs := update_where (live_lease env run_id token)
        (finalize_update env state err) (runs db)\<rparr>)) (\<lambda>db'.
     Inr (map r_id (filter (live_lease env run_id token) (runs db)), db')))"

definition close_attempt ::
    "env \<Rightarrow> StoredAttemptOutcome \<Rightarrow> rust_string option \<Rightarrow> attempt_row \<Rightarrow> attempt_row" where
  "close_attempt env outcome err a =
     a\<lparr>a_finished_at := Some (env_clock env AttemptFinishedClock (a_run_id a)),
       a_outcome := Some outcome, a_error := err\<rparr>"

definition RECORD_ATTEMPT ::
    "env \<Rightarrow> LeaseToken \<Rightarrow> StoredAttemptOutcome \<Rightarrow> rust_string option \<Rightarrow> 'v db \<Rightarrow>
       SchedulerError + nat \<times> 'v db" where
  "RECORD_ATTEMPT env token outcome err db =
     and_then (bind_texts (opt_text err)) (\<lambda>_.
     and_then (checked (db\<lparr>attempts := update_where (\<lambda>a. a_lease_token a = token \<and> a_outcome a = None)
        (close_attempt env outcome err) (attempts db)\<rparr>)) (\<lambda>db'.
     Inr (length (filter (\<lambda>a. a_lease_token a = token \<and> a_outcome a = None) (attempts db)), db')))"

definition is_terminal_state :: "StoredRunState \<Rightarrow> bool" where
  "is_terminal_state s \<longleftrightarrow> s = SCompleted \<or> s = SFailed \<or> s = SCancelled"

definition terminal :: "RunId \<Rightarrow> 'v db \<Rightarrow> bool" where
  "terminal run_id db \<longleftrightarrow> (\<exists>r \<in> set (runs db). r_id r = run_id \<and> is_terminal_state (r_state r))"

definition fail_update :: "env \<Rightarrow> bool \<Rightarrow> rust_string \<Rightarrow> 'v run_row \<Rightarrow> 'v run_row" where
  "fail_update env retryable err r =
     (let retry = retryable \<and> r_attempt_count r < r_max_attempts r
      in r\<lparr>r_state := (if retry then SPending else SFailed),
           r_available_at := (if retry
              then env_clock env AvailableClock (r_id r) + iv_microseconds (r_retry_backoff r)
              else r_available_at r),
           r_worker_id := None, r_lease_token := None, r_lease_expires_at := None,
           r_started_at := None,
           r_finished_at := (if retry then None else Some (env_clock env FinishedClock (r_id r))),
           r_last_error := (if retry then None else Some err),
           r_updated_at := env_clock env UpdatedClock (r_id r)\<rparr>)"

record FailureRow =
  fr_state :: StoredRunState
  fr_available_at :: timestamp

definition load_failure :: "FailureRow \<Rightarrow> SchedulerError + FailureRow" where
  "load_failure row = decoded (chrono_timestamp (fr_available_at row)) row"

definition FailureRow_of :: "'v run_row \<Rightarrow> FailureRow" where
  "FailureRow_of r = \<lparr>fr_state = r_state r, fr_available_at = r_available_at r\<rparr>"

lemma FailureRow_of_sel [simp]:
  "fr_state (FailureRow_of r) = r_state r" "fr_available_at (FailureRow_of r) = r_available_at r"
  by (simp_all add: FailureRow_of_def)

definition FAIL ::
    "env \<Rightarrow> RunId \<Rightarrow> LeaseToken \<Rightarrow> bool \<Rightarrow> rust_string \<Rightarrow> 'v db \<Rightarrow>
       SchedulerError + FailureRow list \<times> 'v db" where
  "FAIL env run_id token retryable err db =
     and_then (bind_texts [err]) (\<lambda>_.
     and_then (checked (db\<lparr>runs := update_where (live_lease env run_id token)
        (fail_update env retryable err) (runs db)\<rparr>)) (\<lambda>db'.
     Inr (map (FailureRow_of \<circ> fail_update env retryable err)
           (filter (live_lease env run_id token) (runs db)), db')))"

definition renewed_expiry :: "env \<Rightarrow> 'v run_row \<Rightarrow> timestamp" where
  "renewed_expiry env r = env_clock env ExpiresClock (r_id r) + iv_microseconds (r_lease_duration r)"

definition renew_update :: "env \<Rightarrow> 'v run_row \<Rightarrow> 'v run_row" where
  "renew_update env r =
     r\<lparr>r_lease_expires_at := Some (renewed_expiry env r),
       r_updated_at := env_clock env UpdatedClock (r_id r)\<rparr>"

definition RENEW :: "env \<Rightarrow> RunId \<Rightarrow> LeaseToken \<Rightarrow> 'v db \<Rightarrow> SchedulerError + timestamp list \<times> 'v db" where
  "RENEW env run_id token db =
     and_then (checked (db\<lparr>runs := update_where (live_lease env run_id token)
        (renew_update env) (runs db)\<rparr>)) (\<lambda>db'.
     Inr (map (renewed_expiry env) (filter (live_lease env run_id token) (runs db)), db'))"

definition load_renewal :: "timestamp \<Rightarrow> SchedulerError + timestamp" where
  "load_renewal lease_expires_at = decoded (chrono_timestamp lease_expires_at) lease_expires_at"

definition RENEW_ATTEMPT :: "LeaseToken \<Rightarrow> timestamp \<Rightarrow> 'v db \<Rightarrow> SchedulerError + nat \<times> 'v db" where
  "RENEW_ATTEMPT token expires db =
     and_then (checked (db\<lparr>attempts := update_where (\<lambda>a. a_lease_token a = token \<and> a_outcome a = None)
        (\<lambda>a. a\<lparr>a_lease_expires_at := expires\<rparr>) (attempts db)\<rparr>)) (\<lambda>db'.
     Inr (length (filter (\<lambda>a. a_lease_token a = token \<and> a_outcome a = None) (attempts db)), db'))"

section \<open>Operations\<close>

definition outcome_columns :: "Outcome \<Rightarrow> StoredRunState \<times> StoredAttemptOutcome \<times> rust_string option" where
  "outcome_columns outcome =
     (case outcome of
        OutCompleted \<Rightarrow> (SCompleted, ACompleted, None)
      | OutFailed e \<Rightarrow> (SFailed, AFailed, Some e))"

definition finalize_run ::
    "env \<Rightarrow> ('v db \<Rightarrow> 'v db) \<Rightarrow> RunId \<Rightarrow> LeaseToken \<Rightarrow> Outcome \<Rightarrow> 'v db \<Rightarrow> (SchedulerError + FinalizeOutcome) \<times> 'v db" where
  "finalize_run env others run_id token outcome db =
     (let (state, attempt_outcome, err) = outcome_columns outcome
      in transaction db
        (and_then (FINALIZE env run_id token state err db) (\<lambda>(applied, db1).
           if applied = []
           then (let db' = others db1 in Inr (if terminal run_id db' then FinAlreadyTerminal else FinFenced, db'))
           else and_then (RECORD_ATTEMPT env token attempt_outcome err db1) (\<lambda>(n, db2).
             if n \<noteq> 1 then Inl (Invariant ''finalized task did not have one live attempt'')
             else Inr (FinApplied, db2)))))"

definition fail_run ::
    "env \<Rightarrow> ('v db \<Rightarrow> 'v db) \<Rightarrow> RunId \<Rightarrow> LeaseToken \<Rightarrow> rust_string \<Rightarrow> bool \<Rightarrow> 'v db \<Rightarrow>
       (SchedulerError + FailureOutcome) \<times> 'v db" where
  "fail_run env others run_id token err retryable db =
     transaction db
       (and_then (FAIL env run_id token retryable err db) (\<lambda>(returned, db1).
        and_then (collect_results load_failure returned) (\<lambda>rows.
          case rows of
            [] \<Rightarrow> (let db' = others db1 in Inr (if terminal run_id db' then FlAlreadyTerminal else FlFenced, db'))
          | row # _ \<Rightarrow>
              and_then (RECORD_ATTEMPT env token AFailed (Some err) db1) (\<lambda>(n, db2).
              if n \<noteq> 1 then Inl (Invariant ''failed task did not have one live attempt'')
              else (case fr_state row of
                      SPending \<Rightarrow> Inr (FlRetried (fr_available_at row), db2)
                    | SFailed \<Rightarrow> Inr (FlFailed, db2)
                    | _ \<Rightarrow> Inl (Invariant ''failure produced invalid state''))))))"

definition renew_lease ::
    "env \<Rightarrow> RunId \<Rightarrow> LeaseToken \<Rightarrow> 'v db \<Rightarrow> (SchedulerError + RenewalOutcome) \<times> 'v db" where
  "renew_lease env run_id token db =
     transaction db
       (and_then (RENEW env run_id token db) (\<lambda>(returned, db1).
        and_then (collect_results load_renewal returned) (\<lambda>rows.
          case rows of
            [] \<Rightarrow> Inr (RenewFenced, db1)
          | lease_expires_at # _ \<Rightarrow>
              and_then (RENEW_ATTEMPT token lease_expires_at db1) (\<lambda>(n, db2).
              if n \<noteq> 1 then Inl (Invariant ''renewed task did not have one live attempt'')
              else Inr (Renewed lease_expires_at, db2)))))"

section \<open>The guard\<close>

lemma live_lease_unique:
  assumes "schema_ok db" "r \<in> set (runs db)" "live_lease env rid tok r" "x \<in> set (runs db)"
  shows "live_lease env rid tok x \<longleftrightarrow> x = r"
  using assms run_eqI [OF assms(1,4,2)] by (auto simp: live_lease_def)

lemma filter_live_lease:
  assumes sch: "schema_ok db" and r: "r \<in> set (runs db)" "live_lease env rid tok r"
  shows "filter (live_lease env rid tok) (runs db) = [r]"
proof -
  let ?f = "filter (live_lease env rid tok) (runs db)"
  have "set ?f = {r}" using live_lease_unique [OF sch r] r by auto
  moreover have "distinct ?f"
    using runs_distinct [OF sch] by (simp add: distinct_map)
  ultimately show ?thesis by (intro distinct_set_singleton)
qed

lemma filter_no_live_lease:
  "\<forall>r \<in> set (runs db). \<not> live_lease env rid tok r \<Longrightarrow> filter (live_lease env rid tok) (runs db) = []"
  by (simp add: filter_empty_conv)

lemma update_no_live_lease:
  "\<forall>r \<in> set (runs db). \<not> live_lease env rid tok r \<Longrightarrow>
     db\<lparr>runs := update_where (live_lease env rid tok) f (runs db)\<rparr> = db"
  by (simp add: update_where_none)

lemma open_attempt_outcome: "a_outcome a = None \<longleftrightarrow> open_attempt a"
  by (simp add: open_attempt_def)

text \<open>The rows after a transition, and what they satisfy.\<close>

lemma running_row:
  assumes "schema_ok db" "r \<in> set (runs db)" "r_state r = SRunning"
  obtains w tok e s where "r_worker_id r = Some w" "r_lease_token r = Some tok"
    "r_lease_expires_at r = Some e" "r_started_at r = Some s" "s < e"
    "r_finished_at r = None" "r_last_error r = None"
  using schema_run [OF assms(1,2)] assms(3)
  by (auto simp: run_checks_def state_check_def split: option.splits)

text \<open>Whether PostgreSQL can store the outcome's text.\<close>

definition outcome_text_ok :: "Outcome \<Rightarrow> bool" where
  "outcome_text_ok out \<longleftrightarrow> (case out of OutCompleted \<Rightarrow> True | OutFailed e \<Rightarrow> pg_text e)"

lemma outcome_text_ok_simps [simp]: "outcome_text_ok OutCompleted" "outcome_text_ok (OutFailed e) = pg_text e"
  by (simp_all add: outcome_text_ok_def)

lemma bind_outcome:
  "outcome_columns out = (st, ao, err) \<Longrightarrow>
     bind_texts (opt_text err) = (if outcome_text_ok out then Inr () else Inl value_error)"
  by (cases out) (auto simp: outcome_columns_def bind_texts_def)

lemma outcome_columns_cases:
  obtains "outcome_columns out = (SCompleted, ACompleted, None)"
  | e where "outcome_columns out = (SFailed, AFailed, Some e)"
  by (cases out) (auto simp: outcome_columns_def)

lemma outcome_text_columns:
  "outcome_columns out = (st, ao, err) \<Longrightarrow> outcome_text_ok out \<Longrightarrow> opt_all pg_text err"
  by (cases out) (auto simp: outcome_columns_def)

lemma finalize_update_ok:
  assumes "schema_ok db" "r \<in> set (runs db)" "env_ok env" "outcome_columns out = (st, ao, err)"
    and "outcome_text_ok out"
  shows "run_types (finalize_update env st err r) \<and> run_checks (finalize_update env st err r)"
  using schema_run [OF assms(1,2)] assms(3,4) outcome_text_columns [OF assms(4,5)]
  by (cases rule: outcome_columns_cases [of out])
    (auto simp: finalize_update_def run_types_def run_checks_def attempts_check_def state_check_def no_lease_def)

lemma fail_update_ok:
  assumes "schema_ok db" "r \<in> set (runs db)" "env_ok env" "pg_text err"
    and "retryable \<and> r_attempt_count r < r_max_attempts r \<Longrightarrow>
      pg_timestamp (env_clock env AvailableClock (r_id r) + iv_microseconds (r_retry_backoff r))"
  shows "run_types (fail_update env retryable err r) \<and> run_checks (fail_update env retryable err r)"
  using schema_run [OF assms(1,2)] assms(3-5)
  by (auto simp: fail_update_def Let_def run_types_def run_checks_def attempts_check_def
      state_check_def no_lease_def)

lemma close_attempt_ok:
  assumes "schema_ok db" "a \<in> set (attempts db)" "env_ok env" "err = None \<or> ao = AFailed \<or> ao = AExpired"
    and "opt_all pg_text err"
  shows "attempt_types (close_attempt env ao err a) \<and> attempt_checks (close_attempt env ao err a)"
  using schema_attempt [OF assms(1,2)] assms(3-5)
  by (auto simp: close_attempt_def attempt_types_def attempt_checks_def)

lemma close_attempt_keys [simp]:
  "a_run_id (close_attempt env ao err a) = a_run_id a"
  "a_attempt_number (close_attempt env ao err a) = a_attempt_number a"
  "a_lease_token (close_attempt env ao err a) = a_lease_token a"
  "\<not> open_attempt (close_attempt env ao err a)"
  by (simp_all add: close_attempt_def open_attempt_def)

lemma finalize_update_keys [simp]:
  "r_id (finalize_update env st err r) = r_id r"
  "r_job_id (finalize_update env st err r) = r_job_id r"
  "r_scheduled_for (finalize_update env st err r) = r_scheduled_for r"
  "r_job_name (finalize_update env st err r) = r_job_name r"
  "r_deduplication_key (finalize_update env st err r) = r_deduplication_key r"
  "r_attempt_count (finalize_update env st err r) = r_attempt_count r"
  "r_state (finalize_update env st err r) = st"
  by (simp_all add: finalize_update_def)

lemma fail_update_keys [simp]:
  "r_id (fail_update env b err r) = r_id r"
  "r_job_id (fail_update env b err r) = r_job_id r"
  "r_scheduled_for (fail_update env b err r) = r_scheduled_for r"
  "r_job_name (fail_update env b err r) = r_job_name r"
  "r_deduplication_key (fail_update env b err r) = r_deduplication_key r"
  "r_attempt_count (fail_update env b err r) = r_attempt_count r"
  "r_state (fail_update env b err r) =
     (if b \<and> r_attempt_count r < r_max_attempts r then SPending else SFailed)"
  "r_available_at (fail_update env b err r) =
     (if b \<and> r_attempt_count r < r_max_attempts r
      then env_clock env AvailableClock (r_id r) + iv_microseconds (r_retry_backoff r)
      else r_available_at r)"
  by (simp_all add: fail_update_def Let_def)

lemma renew_update_keys [simp]:
  "r_id (renew_update env r) = r_id r"
  "r_job_id (renew_update env r) = r_job_id r"
  "r_scheduled_for (renew_update env r) = r_scheduled_for r"
  "r_job_name (renew_update env r) = r_job_name r"
  "r_deduplication_key (renew_update env r) = r_deduplication_key r"
  "r_attempt_count (renew_update env r) = r_attempt_count r"
  "r_state (renew_update env r) = r_state r"
  by (simp_all add: renew_update_def)

section \<open>Outcomes of the operations\<close>

definition finalized_db :: "env \<Rightarrow> RunId \<Rightarrow> LeaseToken \<Rightarrow> Outcome \<Rightarrow> 'v db \<Rightarrow> 'v db" where
  "finalized_db env rid tok out db =
     (let (st, ao, err) = outcome_columns out
      in db\<lparr>runs := update_where (live_lease env rid tok) (finalize_update env st err) (runs db),
            attempts := update_where (\<lambda>a. a_lease_token a = tok \<and> open_attempt a)
              (close_attempt env ao err) (attempts db)\<rparr>)"

definition failed_db :: "env \<Rightarrow> RunId \<Rightarrow> LeaseToken \<Rightarrow> rust_string \<Rightarrow> bool \<Rightarrow> 'v db \<Rightarrow> 'v db" where
  "failed_db env rid tok err retryable db =
     db\<lparr>runs := update_where (live_lease env rid tok) (fail_update env retryable err) (runs db),
        attempts := update_where (\<lambda>a. a_lease_token a = tok \<and> open_attempt a)
          (close_attempt env AFailed (Some err)) (attempts db)\<rparr>"

definition renewed_db :: "env \<Rightarrow> RunId \<Rightarrow> LeaseToken \<Rightarrow> timestamp \<Rightarrow> 'v db \<Rightarrow> 'v db" where
  "renewed_db env rid tok expires db =
     db\<lparr>runs := update_where (live_lease env rid tok) (renew_update env) (runs db),
        attempts := update_where (\<lambda>a. a_lease_token a = tok \<and> open_attempt a)
          (\<lambda>a. a\<lparr>a_lease_expires_at := expires\<rparr>) (attempts db)\<rparr>"

definition has_live_lease :: "env \<Rightarrow> RunId \<Rightarrow> LeaseToken \<Rightarrow> 'v db \<Rightarrow> bool" where
  "has_live_lease env rid tok db \<longleftrightarrow> (\<exists>r \<in> set (runs db). live_lease env rid tok r)"

lemma has_live_leaseI:
  "r \<in> set (runs db) \<Longrightarrow> live_lease env rid tok r \<Longrightarrow> has_live_lease env rid tok db"
  by (auto simp: has_live_lease_def)

lemma finalize_run_fenced:
  assumes "schema_ok db" "\<not> has_live_lease env rid tok db"
  shows "finalize_run env others rid tok out db =
    (if outcome_text_ok out
     then (Inr (if terminal rid (others db) then FinAlreadyTerminal else FinFenced), others db)
     else (Inl value_error, db))"
proof -
  obtain st ao err where cols: "outcome_columns out = (st, ao, err)" by (metis prod_cases3)
  show ?thesis
    using assms
    by (simp add: finalize_run_def cols FINALIZE_def bind_outcome [OF cols] has_live_lease_def update_no_live_lease
        filter_no_live_lease transaction_def Let_def)
qed

lemma fail_run_fenced:
  assumes "schema_ok db" "\<not> has_live_lease env rid tok db"
  shows "fail_run env others rid tok err retryable db =
    (if pg_text err
     then (Inr (if terminal rid (others db) then FlAlreadyTerminal else FlFenced), others db)
     else (Inl value_error, db))"
  using assms
  by (simp add: fail_run_def FAIL_def bind_texts_def has_live_lease_def update_no_live_lease
      filter_no_live_lease transaction_def Let_def)

lemma renew_lease_fenced:
  assumes "schema_ok db" "\<not> has_live_lease env rid tok db"
  shows "renew_lease env rid tok db = (Inr RenewFenced, db)"
  using assms
  by (auto simp: renew_lease_def RENEW_def has_live_lease_def update_no_live_lease
      filter_no_live_lease transaction_def)

lemma live_one_attempt:
  assumes "db_inv db" "r \<in> set (runs db)" "live_lease env rid tok r"
  shows "length (filter (\<lambda>a. a_lease_token a = tok \<and> open_attempt a) (attempts db)) = 1"
  using one_open_attempt [OF assms(1,2)] assms(3) by (simp add: live_lease_def)

lemma finalize_run_live:
  assumes inv: "db_inv db" and r: "r \<in> set (runs db)" "live_lease env rid tok r"
  obtains (Applied) "finalize_run env others rid tok out db = (Inr FinApplied, finalized_db env rid tok out db)"
      "schema_ok (finalized_db env rid tok out db)"
  | (Err) k where "finalize_run env others rid tok out db = (Inl (Database (DatabaseError k)), db)"
proof -
  obtain st ao err where cols: "outcome_columns out = (st, ao, err)" by (metis prod_cases3)
  have sch: "schema_ok db" using inv by (simp add: db_inv_def)
  let ?db1 = "db\<lparr>runs := update_where (live_lease env rid tok) (finalize_update env st err) (runs db)\<rparr>"
  let ?db2 = "finalized_db env rid tok out db"
  have db2: "?db1\<lparr>attempts := update_where (\<lambda>a. a_lease_token a = tok \<and> open_attempt a)
      (close_attempt env ao err) (attempts db)\<rparr> = ?db2"
    by (simp add: finalized_db_def cols)
  note defs = finalize_run_def cols FINALIZE_def RECORD_ATTEMPT_def open_attempt_outcome
    filter_live_lease [OF sch r] live_one_attempt [OF inv r] transaction_def db2 bind_outcome [OF cols]
  show thesis
  proof (cases "outcome_text_ok out")
    case False
    then show thesis using Err by (simp add: defs)
  next
    case stored: True
    show thesis
    proof (cases rule: checked_cases [of ?db1])
      case (bad k)
      then show thesis using Err by (simp add: defs stored)
    next
      case one: ok
      show thesis
      proof (cases rule: checked_cases [of ?db2])
        case (bad k)
        then show thesis using Err one by (simp add: defs stored)
      next
        case ok
        then show thesis using Applied one by (simp add: defs stored)
      qed
    qed
  qed
qed

definition fail_outcome :: "env \<Rightarrow> bool \<Rightarrow> 'v run_row \<Rightarrow> FailureOutcome" where
  "fail_outcome env retryable r =
     (if retryable \<and> r_attempt_count r < r_max_attempts r
      then FlRetried (env_clock env AvailableClock (r_id r) + iv_microseconds (r_retry_backoff r))
      else FlFailed)"

text \<open>The \<open>available_at\<close> a failure returns: the end of the backoff, or the old one when there is no retry.\<close>

definition fail_available :: "env \<Rightarrow> bool \<Rightarrow> 'v run_row \<Rightarrow> timestamp" where
  "fail_available env retryable r =
     (if retryable \<and> r_attempt_count r < r_max_attempts r
      then env_clock env AvailableClock (r_id r) + iv_microseconds (r_retry_backoff r)
      else r_available_at r)"

lemma load_failure_row:
  "load_failure (FailureRow_of (fail_update env b err r)) =
     decoded (chrono_timestamp (fail_available env b r)) (FailureRow_of (fail_update env b err r))"
  by (simp add: load_failure_def fail_available_def)

lemma fail_run_unreadable:
  assumes "schema_ok db" "r \<in> set (runs db)" "live_lease env rid tok r"
    and "schema_ok (db\<lparr>runs := update_where (live_lease env rid tok) (fail_update env b err) (runs db)\<rparr>)"
    and "pg_text err" "\<not> chrono_timestamp (fail_available env b r)"
  shows "fail_run env others rid tok err b db = (Inl decode_error, db)"
  using assms(4-6) filter_live_lease [OF assms(1-3)]
  by (simp add: fail_run_def FAIL_def bind_texts_def transaction_def load_failure_row)

lemma fail_run_live:
  assumes inv: "db_inv db" and r: "r \<in> set (runs db)" "live_lease env rid tok r"
  obtains (Applied) "fail_run env others rid tok err b db =
        (Inr (fail_outcome env b r), failed_db env rid tok err b db)"
      "schema_ok (failed_db env rid tok err b db)" "chrono_timestamp (fail_available env b r)"
  | (Err) e where "fail_run env others rid tok err b db = (Inl e, db)" "store_error e"
proof -
  have sch: "schema_ok db" using inv by (simp add: db_inv_def)
  let ?db1 = "db\<lparr>runs := update_where (live_lease env rid tok) (fail_update env b err) (runs db)\<rparr>"
  let ?db2 = "failed_db env rid tok err b db"
  have db2: "?db1\<lparr>attempts := update_where (\<lambda>a. a_lease_token a = tok \<and> open_attempt a)
      (close_attempt env AFailed (Some err)) (attempts db)\<rparr> = ?db2"
    by (simp add: failed_db_def)
  note defs = fail_run_def FAIL_def RECORD_ATTEMPT_def open_attempt_outcome fail_outcome_def load_failure_row
    filter_live_lease [OF sch r] live_one_attempt [OF inv r] transaction_def db2 bind_texts_def
  consider "\<not> pg_text err" | k where "pg_text err" "checked ?db1 = Inl (Database (DatabaseError k))"
    | "pg_text err" "schema_ok ?db1" "\<not> chrono_timestamp (fail_available env b r)"
    | "pg_text err" "schema_ok ?db1" "chrono_timestamp (fail_available env b r)"
    by (metis checked_cases)
  then show thesis
  proof cases
    case 3
    then show thesis using Err fail_run_unreadable [OF sch r 3(2,1,3)] by blast
  next
    case 4
    show thesis
    proof (cases rule: checked_cases [of ?db2])
      case (bad k)
      then show thesis using Err 4 by (simp add: defs)
    next
      case ok
      then show thesis using Applied 4 by (simp add: defs)
    qed
  qed (use Err in \<open>simp_all add: defs\<close>)
qed

lemma renew_lease_unreadable:
  assumes "schema_ok db" "r \<in> set (runs db)" "live_lease env rid tok r"
    and "schema_ok (db\<lparr>runs := update_where (live_lease env rid tok) (renew_update env) (runs db)\<rparr>)"
    and "\<not> chrono_timestamp (renewed_expiry env r)"
  shows "renew_lease env rid tok db = (Inl decode_error, db)"
  using assms(4,5) filter_live_lease [OF assms(1-3)]
  by (simp add: renew_lease_def RENEW_def load_renewal_def transaction_def)

lemma renew_lease_live:
  assumes inv: "db_inv db" and r: "r \<in> set (runs db)" "live_lease env rid tok r"
  obtains (Applied) "renew_lease env rid tok db =
        (Inr (Renewed (renewed_expiry env r)), renewed_db env rid tok (renewed_expiry env r) db)"
      "schema_ok (renewed_db env rid tok (renewed_expiry env r) db)" "chrono_timestamp (renewed_expiry env r)"
  | (Err) e where "renew_lease env rid tok db = (Inl e, db)" "store_error e"
proof -
  have sch: "schema_ok db" using inv by (simp add: db_inv_def)
  let ?db1 = "db\<lparr>runs := update_where (live_lease env rid tok) (renew_update env) (runs db)\<rparr>"
  let ?db2 = "renewed_db env rid tok (renewed_expiry env r) db"
  have db2: "?db1\<lparr>attempts := update_where (\<lambda>a. a_lease_token a = tok \<and> open_attempt a)
      (\<lambda>a. a\<lparr>a_lease_expires_at := renewed_expiry env r\<rparr>) (attempts db)\<rparr> = ?db2"
    by (simp add: renewed_db_def)
  note defs = renew_lease_def RENEW_def RENEW_ATTEMPT_def open_attempt_outcome load_renewal_def
    filter_live_lease [OF sch r] live_one_attempt [OF inv r] transaction_def db2
  consider k where "checked ?db1 = Inl (Database (DatabaseError k))"
    | "schema_ok ?db1" "\<not> chrono_timestamp (renewed_expiry env r)"
    | "schema_ok ?db1" "chrono_timestamp (renewed_expiry env r)"
    by (metis checked_cases)
  then show thesis
  proof cases
    case 2
    then show thesis using Err renew_lease_unreadable [OF sch r] by blast
  next
    case 3
    show thesis
    proof (cases rule: checked_cases [of ?db2])
      case (bad k)
      then show thesis using Err 3 by (simp add: defs)
    next
      case ok
      then show thesis using Applied 3 by (simp add: defs)
    qed
  qed (use Err in \<open>simp add: defs\<close>)
qed

text \<open>What a refused call leaves is what other sessions made of the database; nothing else depends on them.\<close>

lemma finalize_run_split:
  "snd (finalize_run env others rid tok out db) = snd (finalize_run env id rid tok out db) \<or>
   snd (finalize_run env others rid tok out db) = others (snd (finalize_run env id rid tok out db))"
proof -
  obtain st ao err where cols: "outcome_columns out = (st, ao, err)" by (metis prod_cases3)
  show ?thesis
  proof (cases "FINALIZE env rid tok st err db")
    case (Inr p)
    then show ?thesis
      by (cases "fst p = []") (simp_all add: finalize_run_def cols transaction_def Let_def split: prod.splits)
  qed (simp add: finalize_run_def cols transaction_def)
qed

lemma fail_run_split:
  "snd (fail_run env others rid tok err b db) = snd (fail_run env id rid tok err b db) \<or>
   snd (fail_run env others rid tok err b db) = others (snd (fail_run env id rid tok err b db))"
proof (cases "FAIL env rid tok b err db")
  case (Inr p)
  obtain returned db1 where p: "p = (returned, db1)" by (cases p)
  show ?thesis
  proof (cases "collect_results load_failure returned")
    case (Inr rows)
    then show ?thesis
      using \<open>FAIL env rid tok b err db = Inr p\<close>
      by (cases rows) (simp_all add: p fail_run_def transaction_def Let_def)
  qed (use Inr in \<open>simp add: p fail_run_def transaction_def\<close>)
qed (simp add: fail_run_def transaction_def)

section \<open>Invariant preservation\<close>

lemma live_leaseD:
  "live_lease env rid tok r \<Longrightarrow> r_id r = rid \<and> r_state r = SRunning \<and> r_lease_token r = Some tok"
  by (simp add: live_lease_def)

lemma finalized_db_attempts_inv:
  assumes "db_inv db" "r \<in> set (runs db)" "live_lease env rid tok r"
  shows "attempts_inv (runs (finalized_db env rid tok out db)) (attempts (finalized_db env rid tok out db))"
proof -
  have sch: "schema_ok db" using assms(1) by (simp add: db_inv_def)
  obtain st ao err where cols: "outcome_columns out = (st, ao, err)" by (metis prod_cases3)
  have "st \<noteq> SRunning" using cols by (cases rule: outcome_columns_cases [of out]) auto
  then show ?thesis
    using assms live_lease_unique [OF sch assms(2,3)] live_leaseD [OF assms(3)]
    by (simp add: finalized_db_def cols attempts_inv_close_one [OF assms(1,2)])
qed

lemma failed_db_attempts_inv:
  assumes "db_inv db" "r \<in> set (runs db)" "live_lease env rid tok r"
  shows "attempts_inv (runs (failed_db env rid tok err b db)) (attempts (failed_db env rid tok err b db))"
proof -
  have sch: "schema_ok db" using assms(1) by (simp add: db_inv_def)
  show ?thesis
    using assms live_lease_unique [OF sch assms(2,3)] live_leaseD [OF assms(3)]
    by (simp add: failed_db_def attempts_inv_close_one [OF assms(1,2)])
qed

lemma renewed_db_attempts_inv:
  assumes inv: "db_inv db" and r: "r \<in> set (runs db)" "live_lease env rid tok r"
  shows "attempts_inv (runs (renewed_db env rid tok (renewed_expiry env r) db))
      (attempts (renewed_db env rid tok (renewed_expiry env r) db))"
proof -
  have sch: "schema_ok db" and ai: "attempts_inv (runs db) (attempts db)"
    using inv by (auto simp: db_inv_def)
  have tok: "r_id r = rid" "r_state r = SRunning" "r_lease_token r = Some tok"
    using live_leaseD [OF r(2)] by auto
  have "attempts_inv (update_where (live_lease env rid tok) (renew_update env) (runs db))
      (update_where (\<lambda>a. a_lease_token a = tok \<and> open_attempt a)
        (\<lambda>a. a\<lparr>a_lease_expires_at := renewed_expiry env r\<rparr>) (attempts db))"
  proof (rule attempts_inv_renew [OF ai])
    fix x a assume x: "x \<in> set (runs db)" "a \<in> set (attempts db)" "mirrors x a" "open_attempt a"
    have "a_lease_token a = tok \<longleftrightarrow> r_id x = r_id r"
      using open_attempt_of_run [OF inv r(1) tok(2,3) x(2,4)] x(3) by (simp add: mirrors_def)
    then have "a_lease_token a = tok \<longleftrightarrow> x = r" using run_eqI [OF sch x(1) r(1)] by blast
    then show "live_lease env rid tok x = (a_lease_token a = tok \<and> open_attempt a) \<and>
        (live_lease env rid tok x \<longrightarrow>
         mirrors (renew_update env x) (a\<lparr>a_lease_expires_at := renewed_expiry env r\<rparr>) \<and>
         open_attempt (a\<lparr>a_lease_expires_at := renewed_expiry env r\<rparr>))"
      using x live_lease_unique [OF sch r x(1)]
      by (auto simp: mirrors_def renew_update_def open_attempt_def)
  qed (auto simp: live_lease_def open_attempt_def)
  then show ?thesis by (simp add: renewed_db_def)
qed

section \<open>The contract of a leased operation\<close>

text \<open>The lease is in one hand.\<close>

lemma one_live_token:
  assumes "db_inv db" "has_live_lease e1 rid t1 db" "t1 \<noteq> t2"
  shows "\<not> has_live_lease e2 rid t2 db"
proof
  have sch: "schema_ok db" using assms(1) by (simp add: db_inv_def)
  assume "has_live_lease e2 rid t2 db"
  with assms(2) obtain r1 r2 where r: "r1 \<in> set (runs db)" "live_lease e1 rid t1 r1"
    "r2 \<in> set (runs db)" "live_lease e2 rid t2 r2"
    by (auto simp: has_live_lease_def)
  then have "r1 = r2" using run_eqI [OF sch r(1,3)] by (simp add: live_lease_def)
  with r assms(3) show False by (simp add: live_lease_def)
qed

text \<open>
  \<open>after\<close> is what other sessions make of the database while a refused call goes on, and \<open>storable\<close> whether
  the texts the call binds can be stored. Without a live lease the operation itself changes nothing: it is
  refused, or fails when a text cannot be stored. With one it keeps the invariant and touches no other task.
\<close>

definition repelled :: "('o \<Rightarrow> bool) \<Rightarrow> 'v db \<Rightarrow> 'v db \<Rightarrow> (SchedulerError + 'o) \<times> 'v db \<Rightarrow> bool" where
  "repelled refused db later t \<longleftrightarrow>
     (\<exists>x. t = (Inr x, later) \<and> refused x) \<or> (\<exists>e. t = (Inl e, db))"

locale leased_operation =
  fixes op :: "env \<Rightarrow> RunId \<Rightarrow> LeaseToken \<Rightarrow> 'v db \<Rightarrow> (SchedulerError + 'o) \<times> 'v db"
    and after :: "'v db \<Rightarrow> 'v db"
    and storable :: bool
    and refused :: "'o \<Rightarrow> bool"
  assumes fenced: "storable \<Longrightarrow> schema_ok db \<Longrightarrow> \<not> has_live_lease env rid tok db \<Longrightarrow>
      \<exists>x. op env rid tok db = (Inr x, after db) \<and> refused x"
    and unstorable: "\<not> storable \<Longrightarrow> \<exists>e. op env rid tok db = (Inl e, db)"
    and accepted: "db_inv db \<Longrightarrow> has_live_lease env rid tok db \<Longrightarrow>
      op env rid tok db = (Inr x, db') \<Longrightarrow> \<not> refused x"
    and failed: "db_inv db \<Longrightarrow> op env rid tok db = (Inl e, db') \<Longrightarrow> db' = db"
    and live_inv: "db_inv db \<Longrightarrow> has_live_lease env rid tok db \<Longrightarrow> db_inv (snd (op env rid tok db))"
    and frame: "db_inv db \<Longrightarrow> has_live_lease env rid tok db \<Longrightarrow> r_id r \<noteq> rid \<Longrightarrow>
      r \<in> set (runs (snd (op env rid tok db))) \<longleftrightarrow> r \<in> set (runs db)"
begin

lemma keeps_inv:
  assumes "db_inv db" "db_inv (after db)"
  shows "db_inv (snd (op env rid tok db))"
  using assms live_inv [OF assms(1)] fenced [of db env rid tok] unstorable [of env rid tok db]
  by (cases "has_live_lease env rid tok db"; cases storable) (auto simp: db_inv_def)

lemma fenced_off:
  assumes "schema_ok db" "\<not> has_live_lease env rid tok db"
  shows "repelled refused db (after db) (op env rid tok db)"
  using fenced [OF _ assms] unstorable [of env rid tok db] by (cases storable) (auto simp: repelled_def)

lemma refused_iff:
  assumes "db_inv db" "op env rid tok db = (Inr x, db')"
  shows "refused x \<longleftrightarrow> \<not> has_live_lease env rid tok db"
  using assms fenced [of db env rid tok] unstorable [of env rid tok db] accepted [OF assms(1) _ assms(2)]
  by (cases storable) (auto simp: db_inv_def)

text \<open>At any moment at most one token can act on a task.\<close>

lemma one_owner:
  assumes "db_inv db" "has_live_lease e1 rid t1 db" "t1 \<noteq> t2"
  shows "repelled refused db (after db) (op e2 rid t2 db)"
  using assms(1) by (intro fenced_off one_live_token [OF assms]) (simp add: db_inv_def)

end

text \<open>The contract follows from the behaviour on an absent and on a present live lease.\<close>

lemma leased_operationI:
  assumes fenced: "\<And>db env rid tok. storable \<Longrightarrow> schema_ok db \<Longrightarrow> \<not> has_live_lease env rid tok db \<Longrightarrow>
      \<exists>x. op env rid tok db = (Inr x, after db) \<and> refused x"
    and unstorable: "\<And>db env rid tok. \<not> storable \<Longrightarrow> \<exists>e. op env rid tok db = (Inl e, db)"
    and live: "\<And>db env rid tok r. db_inv db \<Longrightarrow> r \<in> set (runs db) \<Longrightarrow> live_lease env rid tok r \<Longrightarrow>
      (\<exists>e. op env rid tok db = (Inl e, db)) \<or>
      (\<exists>x db'. op env rid tok db = (Inr x, db') \<and> \<not> refused x \<and> db_inv db' \<and>
        (\<forall>s. r_id s \<noteq> rid \<longrightarrow> (s \<in> set (runs db') \<longleftrightarrow> s \<in> set (runs db))))"
  shows "leased_operation op after storable refused"
proof
  fix db :: "'a db" and env rid tok x db' e and r :: "'a run_row"
  show "storable \<Longrightarrow> schema_ok db \<Longrightarrow> \<not> has_live_lease env rid tok db \<Longrightarrow>
      \<exists>x. op env rid tok db = (Inr x, after db) \<and> refused x"
    by (rule fenced)
  show "\<not> storable \<Longrightarrow> \<exists>e. op env rid tok db = (Inl e, db)" by (rule unstorable)
  assume inv: "db_inv db"
  have split: "(\<exists>x. op env rid tok db = (Inr x, after db) \<and> refused x \<and> \<not> has_live_lease env rid tok db) \<or>
      (\<exists>e. op env rid tok db = (Inl e, db)) \<or>
      (\<exists>x db'. op env rid tok db = (Inr x, db') \<and> \<not> refused x \<and> db_inv db' \<and>
        (\<forall>s. r_id s \<noteq> rid \<longrightarrow> (s \<in> set (runs db') \<longleftrightarrow> s \<in> set (runs db))))"
  proof (cases "has_live_lease env rid tok db")
    case True
    then obtain r where "r \<in> set (runs db)" "live_lease env rid tok r"
      by (auto simp: has_live_lease_def)
    from live [OF inv this] show ?thesis by blast
  next
    case False
    then show ?thesis
      using fenced [of db env rid tok] unstorable [of env rid tok db] inv by (cases storable) (auto simp: db_inv_def)
  qed
  show "has_live_lease env rid tok db \<Longrightarrow> op env rid tok db = (Inr x, db') \<Longrightarrow> \<not> refused x"
    and "op env rid tok db = (Inl e, db') \<Longrightarrow> db' = db"
    and "has_live_lease env rid tok db \<Longrightarrow> db_inv (snd (op env rid tok db))"
    and "has_live_lease env rid tok db \<Longrightarrow> r_id r \<noteq> rid \<Longrightarrow> r \<in> set (runs (snd (op env rid tok db))) \<longleftrightarrow> r \<in> set (runs db)"
    using split inv by auto
qed

lemma finalize_run_unstorable:
  "\<not> outcome_text_ok out \<Longrightarrow> finalize_run env others rid tok out db = (Inl value_error, db)"
  by (cases "outcome_columns out") (simp add: finalize_run_def FINALIZE_def bind_outcome transaction_def)

lemma fail_run_unstorable:
  "\<not> pg_text err \<Longrightarrow> fail_run env others rid tok err b db = (Inl value_error, db)"
  by (simp add: fail_run_def FAIL_def bind_texts_def transaction_def)

lemma live_frame:
  assumes "\<And>x. r_id (f x) = r_id x" "r_id s \<noteq> rid"
  shows "s \<in> set (update_where (live_lease env rid tok) f t) \<longleftrightarrow> s \<in> set t"
  using assms by (auto simp: set_update_where live_lease_def)

interpretation finalize: leased_operation "\<lambda>env rid tok. finalize_run env others rid tok out"
    others "outcome_text_ok out" "\<lambda>x. x \<noteq> FinApplied" for out others
proof (rule leased_operationI)
  fix db :: "'a db" and env rid tok r
  assume live: "db_inv db" "r \<in> set (runs db)" "live_lease env rid tok r"
  show "(\<exists>e. finalize_run env others rid tok out db = (Inl e, db)) \<or>
      (\<exists>x db'. finalize_run env others rid tok out db = (Inr x, db') \<and> \<not> x \<noteq> FinApplied \<and> db_inv db' \<and>
        (\<forall>s. r_id s \<noteq> rid \<longrightarrow> (s \<in> set (runs db') \<longleftrightarrow> s \<in> set (runs db))))"
    using finalized_db_attempts_inv [OF live, of out]
    by (cases rule: finalize_run_live [OF live, of others out])
      (auto simp: db_inv_def finalized_db_def live_frame split: prod.splits)
qed (simp_all add: finalize_run_fenced finalize_run_unstorable)

interpretation fail: leased_operation "\<lambda>env rid tok. fail_run env others rid tok err retryable"
    others "pg_text err" "\<lambda>x. x = FlFenced \<or> x = FlAlreadyTerminal" for err retryable others
proof (rule leased_operationI)
  fix db :: "'a db" and env rid tok r
  assume live: "db_inv db" "r \<in> set (runs db)" "live_lease env rid tok r"
  show "(\<exists>e. fail_run env others rid tok err retryable db = (Inl e, db)) \<or>
      (\<exists>x db'. fail_run env others rid tok err retryable db = (Inr x, db') \<and>
        \<not> (x = FlFenced \<or> x = FlAlreadyTerminal) \<and> db_inv db' \<and>
        (\<forall>s. r_id s \<noteq> rid \<longrightarrow> (s \<in> set (runs db') \<longleftrightarrow> s \<in> set (runs db))))"
    using failed_db_attempts_inv [OF live, of err retryable]
    by (cases rule: fail_run_live [OF live, of others err retryable])
      (auto simp: db_inv_def failed_db_def fail_outcome_def live_frame)
qed (simp_all add: fail_run_fenced fail_run_unstorable)

interpretation renew: leased_operation renew_lease "\<lambda>db. db" True "\<lambda>x. x = RenewFenced"
proof (rule leased_operationI)
  fix db :: "'v db" and env rid tok r
  assume live: "db_inv db" "r \<in> set (runs db)" "live_lease env rid tok r"
  show "(\<exists>e. renew_lease env rid tok db = (Inl e, db)) \<or>
      (\<exists>x db'. renew_lease env rid tok db = (Inr x, db') \<and> \<not> x = RenewFenced \<and> db_inv db' \<and>
        (\<forall>s. r_id s \<noteq> rid \<longrightarrow> (s \<in> set (runs db') \<longleftrightarrow> s \<in> set (runs db))))"
    using renewed_db_attempts_inv [OF live]
    by (cases rule: renew_lease_live [OF live])
      (auto simp: db_inv_def renewed_db_def live_frame)
qed (simp_all add: renew_lease_fenced)

section \<open>Success\<close>

text \<open>With the database clock in range, completion and permanent failure never fail.\<close>

lemma finalized_schema:
  assumes "schema_ok db" "env_ok env" "outcome_columns out = (st, ao, err)" "outcome_text_ok out"
  shows "schema_ok (db\<lparr>runs := update_where (live_lease env rid tok) (finalize_update env st err) (runs db)\<rparr>)"
    and "schema_ok (finalized_db env rid tok out db)"
proof -
  let ?db1 = "db\<lparr>runs := update_where (live_lease env rid tok) (finalize_update env st err) (runs db)\<rparr>"
  show db1: "schema_ok ?db1"
    using finalize_update_ok [OF assms(1) _ assms(2-4)] by (intro schema_update_runs assms(1)) simp_all
  have "err = None \<or> ao = AFailed \<or> ao = AExpired"
    using assms(3) by (cases rule: outcome_columns_cases [of out]) auto
  then have "schema_ok (?db1\<lparr>attempts := update_where (\<lambda>a. a_lease_token a = tok \<and> open_attempt a)
      (close_attempt env ao err) (attempts ?db1)\<rparr>)"
    using close_attempt_ok [OF db1 _ assms(2)] outcome_text_columns [OF assms(3,4)]
    by (intro schema_update_attempts db1) simp_all
  then show "schema_ok (finalized_db env rid tok out db)"
    by (simp add: finalized_db_def assms(3))
qed

lemma failed_schema:
  assumes "schema_ok db" "env_ok env" "pg_text err"
    and "\<And>r. r \<in> set (runs db) \<Longrightarrow> live_lease env rid tok r \<Longrightarrow> b \<Longrightarrow>
      r_attempt_count r < r_max_attempts r \<Longrightarrow>
      pg_timestamp (env_clock env AvailableClock (r_id r) + iv_microseconds (r_retry_backoff r))"
  shows "schema_ok (db\<lparr>runs := update_where (live_lease env rid tok) (fail_update env b err) (runs db)\<rparr>)"
    and "schema_ok (failed_db env rid tok err b db)"
proof -
  let ?db1 = "db\<lparr>runs := update_where (live_lease env rid tok) (fail_update env b err) (runs db)\<rparr>"
  show db1: "schema_ok ?db1"
    using fail_update_ok [OF assms(1) _ assms(2,3), of _ b] assms(4)
    by (intro schema_update_runs assms(1)) simp_all
  then have "schema_ok (?db1\<lparr>attempts := update_where (\<lambda>a. a_lease_token a = tok \<and> open_attempt a)
      (close_attempt env AFailed (Some err)) (attempts ?db1)\<rparr>)"
    using close_attempt_ok [OF db1 _ assms(2)] assms(3) by (intro schema_update_attempts) simp_all
  then show "schema_ok (failed_db env rid tok err b db)"
    by (simp add: failed_db_def)
qed

lemma finalize_run_succeeds:
  assumes inv: "db_inv db" and env: "env_ok env" and r: "r \<in> set (runs db)" "live_lease env rid tok r"
    and stored: "outcome_text_ok out"
  shows "finalize_run env others rid tok out db = (Inr FinApplied, finalized_db env rid tok out db)"
proof -
  have sch: "schema_ok db" using inv by (simp add: db_inv_def)
  obtain st ao err where cols: "outcome_columns out = (st, ao, err)" by (metis prod_cases3)
  show ?thesis
    using filter_live_lease [OF sch r] live_one_attempt [OF inv r]
      finalized_schema [OF sch env cols stored, of rid tok]
    by (simp add: finalize_run_def cols FINALIZE_def RECORD_ATTEMPT_def open_attempt_outcome
        bind_outcome [OF cols] stored transaction_def finalized_db_def)
qed

lemma fail_run_succeeds:
  assumes inv: "db_inv db" and env: "env_ok env" and r: "r \<in> set (runs db)" "live_lease env rid tok r"
    and "b \<Longrightarrow> r_attempt_count r < r_max_attempts r \<Longrightarrow>
      pg_timestamp (env_clock env AvailableClock (r_id r) + iv_microseconds (r_retry_backoff r))"
    and stored: "pg_text err" and read: "chrono_timestamp (fail_available env b r)"
  shows "fail_run env others rid tok err b db = (Inr (fail_outcome env b r), failed_db env rid tok err b db)"
proof -
  have sch: "schema_ok db" using inv by (simp add: db_inv_def)
  have "schema_ok (db\<lparr>runs := update_where (live_lease env rid tok) (fail_update env b err) (runs db)\<rparr>)"
    "schema_ok (failed_db env rid tok err b db)"
    using failed_schema [OF sch env stored, of rid tok b] assms(5) live_lease_unique [OF sch r] by blast+
  then show ?thesis
    using filter_live_lease [OF sch r] live_one_attempt [OF inv r]
    by (simp add: fail_run_def FAIL_def RECORD_ATTEMPT_def open_attempt_outcome load_failure_row read
        stored transaction_def failed_db_def fail_outcome_def)
qed

section \<open>The worker's operations are safe\<close>

lemma live_view:
  assumes "live_lease env rid tok r"
  shows "row_view r = TRunning (r_attempt_count r) (r_max_attempts r) tok"
  using live_leaseD [OF assms] by simp

text \<open>
  An update of the task that holds the lease, together with updates of open attempts, is safe when
  it takes the running task along one transition, or leaves its view alone.
\<close>

lemma leased_effect:
  assumes sch: "schema_ok db" and rs: "runs db' = update_where (live_lease env rid tok) f (runs db)"
    and as: "attempts db' = update_where (\<lambda>a. a_lease_token a = tok \<and> open_attempt a) g (attempts db)"
    and f: "\<And>r. r \<in> set (runs db) \<Longrightarrow> live_lease env rid tok r \<Longrightarrow> r_id (f r) = r_id r \<and>
      task_step\<^sup>=\<^sup>= (TRunning (r_attempt_count r) (r_max_attempts r) tok) (row_view (f r)) \<and>
      description (f r) = description r"
  shows "safe_effect db db'"
proof (rule safe_effect_update [OF sch rs])
  fix r assume r: "r \<in> set (runs db)" "live_lease env rid tok r"
  show "r_id (f r) = r_id r \<and> task_step\<^sup>=\<^sup>= (row_view r) (row_view (f r)) \<and> description (f r) = description r"
    unfolding live_view [OF r(2)] using r by (rule f)
qed (use as in \<open>auto simp: set_update_where\<close>)

lemma finalized_db_effect:
  assumes sch: "schema_ok db"
  shows "safe_effect db (finalized_db env rid tok out db)"
proof -
  obtain st ao err where cols: "outcome_columns out = (st, ao, err)" by (metis prod_cases3)
  have "terminal_state st" using cols by (cases rule: outcome_columns_cases [of out]) auto
  then show ?thesis
    by (intro leased_effect [OF sch, where f = "finalize_update env st err"])
      (auto simp: finalized_db_def cols description_def task_step.finish finalize_update_def)
qed

lemma failed_db_effect:
  assumes sch: "schema_ok db"
  shows "safe_effect db (failed_db env rid tok err b db)"
  by (rule leased_effect [OF sch, where f = "fail_update env b err"])
    (auto simp: failed_db_def description_def fail_update_def Let_def
      intro: task_step.finish task_step.retry)

lemma renewed_db_effect:
  assumes sch: "schema_ok db"
  shows "safe_effect db (renewed_db env rid tok x db)"
  by (rule leased_effect [OF sch, where f = "renew_update env"])
    (auto simp: renewed_db_def description_def renew_update_def dest: live_leaseD)

text \<open>Whatever a leased operation returns, it is either refused, failed or applied.\<close>

lemma leased_split:
  assumes inv: "db_inv db" and refused: "schema_ok db \<Longrightarrow> \<not> has_live_lease env rid tok db \<Longrightarrow> snd t = db"
    and live: "\<And>r. r \<in> set (runs db) \<Longrightarrow> live_lease env rid tok r \<Longrightarrow> safe_effect db (snd t)"
  shows "safe_effect db (snd t)"
proof -
  have sch: "schema_ok db" using inv by (simp add: db_inv_def)
  show ?thesis
  proof (cases "has_live_lease env rid tok db")
    case True
    then show ?thesis using live by (auto simp: has_live_lease_def)
  qed (simp add: refused sch safe_effect_refl)
qed

interpretation finalize_op: safe_operation "\<lambda>db. snd (finalize_run env id rid tok out db)"
  for env rid tok out
proof
  fix db :: "'v db" assume inv: "db_inv db"
  then show "db_inv (snd (finalize_run env id rid tok out db))" by (intro finalize.keeps_inv) simp_all
  have sch: "schema_ok db" using inv by (simp add: db_inv_def)
  show "safe_effect db (snd (finalize_run env id rid tok out db))"
  proof (rule leased_split [OF inv])
    fix r assume live: "r \<in> set (runs db)" "live_lease env rid tok r"
    show "safe_effect db (snd (finalize_run env id rid tok out db))"
      by (cases rule: finalize_run_live [OF inv live, of id out])
        (simp_all add: finalized_db_effect safe_effect_refl sch)
  qed (simp add: finalize_run_fenced)
qed

interpretation fail_op: safe_operation "\<lambda>db. snd (fail_run env id rid tok err b db)"
  for env rid tok err b
proof
  fix db :: "'v db" assume inv: "db_inv db"
  then show "db_inv (snd (fail_run env id rid tok err b db))" by (intro fail.keeps_inv) simp_all
  have sch: "schema_ok db" using inv by (simp add: db_inv_def)
  show "safe_effect db (snd (fail_run env id rid tok err b db))"
  proof (rule leased_split [OF inv])
    fix r assume live: "r \<in> set (runs db)" "live_lease env rid tok r"
    show "safe_effect db (snd (fail_run env id rid tok err b db))"
      by (cases rule: fail_run_live [OF inv live, of id err b])
        (simp_all add: failed_db_effect safe_effect_refl sch)
  qed (simp add: fail_run_fenced)
qed

interpretation renew_op: safe_operation "\<lambda>db. snd (renew_lease env rid tok db)"
  for env rid tok
proof
  fix db :: "'v db" assume inv: "db_inv db"
  then show "db_inv (snd (renew_lease env rid tok db))" by (intro renew.keeps_inv)
  have sch: "schema_ok db" using inv by (simp add: db_inv_def)
  show "safe_effect db (snd (renew_lease env rid tok db))"
  proof (rule leased_split [OF inv])
    fix r assume live: "r \<in> set (runs db)" "live_lease env rid tok r"
    show "safe_effect db (snd (renew_lease env rid tok db))"
      by (cases rule: renew_lease_live [OF inv live])
        (simp_all add: renewed_db_effect safe_effect_refl sch)
  qed (simp add: renew_lease_fenced)
qed

section \<open>Properties\<close>

lemma sample_live: "sample_running \<in> set (runs sample_db)" "live_lease (sample_env 200) (RunId 2) (LeaseToken 7) sample_running"
  by (simp_all add: sample_db_def live_lease_def sample_running_def sample_task_def)

text \<open>
  C7: nobody acts without a live lease. When no row of the task is running under the presented token
  with an expiry after the statement's clock (the token was rotated or cleared, the lease has run out,
  the task is not running, or there is none), completion, failure and renewal change nothing and are
  refused, the first two with the answer that tells a terminal task from a fenced worker, as read by a
  second statement when other sessions may have moved on; a text that PostgreSQL cannot store is a
  database error instead.
\<close>

theorem lease_required:
  assumes "db_inv db"
    and "\<forall>r \<in> set (runs db). r_id r = rid \<longrightarrow> r_state r \<noteq> SRunning \<or> r_lease_token r \<noteq> Some tok \<or>
      (\<forall>e. r_lease_expires_at r = Some e \<longrightarrow> e \<le> env_clock env WhereClock rid)"
  shows "finalize_run env others rid tok out db =
      (if outcome_text_ok out
       then (Inr (if terminal rid (others db) then FinAlreadyTerminal else FinFenced), others db)
       else (Inl value_error, db)) \<and>
    fail_run env others rid tok err b db =
      (if pg_text err
       then (Inr (if terminal rid (others db) then FlAlreadyTerminal else FlFenced), others db)
       else (Inl value_error, db)) \<and>
    renew_lease env rid tok db = (Inr RenewFenced, db)"
proof -
  have "\<not> has_live_lease env rid tok db"
    using assms(2) by (fastforce simp: has_live_lease_def live_lease_def split: option.splits)
  moreover have "schema_ok db" using assms(1) by (simp add: db_inv_def)
  ultimately show ?thesis by (simp add: finalize_run_fenced fail_run_fenced renew_lease_fenced)
qed

theorem lease_required_witness:
  "finalize_run (sample_env 200) id (RunId 2) (LeaseToken 99) OutCompleted sample_db = (Inr FinFenced, sample_db) \<and>
   finalize_run (sample_env 200) id (RunId 3) (LeaseToken 8) OutCompleted sample_db = (Inr FinAlreadyTerminal, sample_db) \<and>
   renew_lease (sample_env 400) (RunId 2) (LeaseToken 7) sample_db = (Inr RenewFenced, sample_db)"
proof -
  let ?no = "\<lambda>env rid tok. \<forall>r \<in> set (runs sample_db). r_id r = rid \<longrightarrow> r_state r \<noteq> SRunning \<or>
    r_lease_token r \<noteq> Some tok \<or> (\<forall>e. r_lease_expires_at r = Some e \<longrightarrow> e \<le> env_clock env WhereClock rid)"
  have no: "?no (sample_env 200) (RunId 2) (LeaseToken 99)" "?no (sample_env 200) (RunId 3) (LeaseToken 8)"
      "?no (sample_env 400) (RunId 2) (LeaseToken 7)"
    and t: "\<not> terminal (RunId 2) sample_db" "terminal (RunId 3) sample_db"
    by (simp_all add: sample_db_def sample_rows terminal_def is_terminal_state_def)
  show ?thesis
    using lease_required [OF sample_inv no(1), where others = id and out = OutCompleted]
      lease_required [OF sample_inv no(2), where others = id and out = OutCompleted]
      lease_required [OF sample_inv no(3), where others = id] t by simp
qed

text \<open>
  At any moment at most one token can act on a task: if completion is accepted under one token, then
  every other token is refused by completion, failure and renewal on the same database, whatever the
  clocks of the other session read and whatever the rest of the fleet does meanwhile.
\<close>

lemma one_lease_owner:
  assumes "db_inv db" "finalize_run e1 others1 rid t1 o1 db = (Inr FinApplied, d1)" "t1 \<noteq> t2"
  shows "repelled (\<lambda>x. x \<noteq> FinApplied) db (others db) (finalize_run e2 others rid t2 o2 db) \<and>
    repelled (\<lambda>x. x = FlFenced \<or> x = FlAlreadyTerminal) db (others db) (fail_run e2 others rid t2 err b db) \<and>
    renew_lease e2 rid t2 db = (Inr RenewFenced, db)"
proof -
  have live: "has_live_lease e1 rid t1 db" using finalize.refused_iff [OF assms(1,2)] by simp
  show ?thesis
    using finalize.one_owner [OF assms(1) live assms(3), where others = others and ?e2.0 = e2 and out = o2]
      fail.one_owner [OF assms(1) live assms(3), where others = others and ?e2.0 = e2 and err = err and retryable = b]
      renew_lease_fenced [of db e2 rid t2] one_live_token [OF assms(1) live assms(3), of e2] assms(1)
    by (simp add: db_inv_def)
qed

lemma live_after_close:
  assumes "schema_ok db" "r \<in> set (runs db)" "live_lease env rid tok r" "schema_ok db'"
    and "runs db' = update_where (live_lease env rid tok) f (runs db)"
    and "r_id (f r) = r_id r" "r_state (f r) \<noteq> SRunning"
  shows "\<not> has_live_lease env' rid tok' db'" "terminal rid db' \<longleftrightarrow> is_terminal_state (r_state (f r))"
proof -
  have fr: "f r \<in> set (runs db')" using assms(2,3) by (auto simp: assms(5) set_update_where)
  have rid: "r_id (f r) = rid" using assms(3,6) by (simp add: live_lease_def)
  have eq: "x = f r" if "x \<in> set (runs db')" "r_id x = rid" for x
    using that(2) rid by (intro run_eqI [OF assms(4) that(1) fr]) simp
  show "\<not> has_live_lease env' rid tok' db'"
  proof
    assume "has_live_lease env' rid tok' db'"
    then obtain x where x: "x \<in> set (runs db')" "r_id x = rid" "r_state x = SRunning"
      by (auto simp: has_live_lease_def live_lease_def)
    with eq [OF x(1,2)] assms(7) show False by simp
  qed
  show "terminal rid db' \<longleftrightarrow> is_terminal_state (r_state (f r))"
    unfolding terminal_def using eq fr rid by metis
qed

lemma sample_finalized:
  "outcome_text_ok out \<Longrightarrow> finalize_run (sample_env 200) id (RunId 2) (LeaseToken 7) out sample_db =
     (Inr FinApplied, finalized_db (sample_env 200) (RunId 2) (LeaseToken 7) out sample_db)"
  by (rule finalize_run_succeeds [OF sample_inv sample_200 sample_live])

lemma sample_failed:
  "pg_text err \<Longrightarrow> fail_run (sample_env 200) id (RunId 2) (LeaseToken 7) err b sample_db =
     (Inr (fail_outcome (sample_env 200) b sample_running),
      failed_db (sample_env 200) (RunId 2) (LeaseToken 7) err b sample_db)"
  by (rule fail_run_succeeds [OF sample_inv sample_200 sample_live])
    (simp_all add: sample_running_def sample_task_def sample_backoff_def pg_timestamp_def fail_available_def
      chrono_timestamp_def)

text \<open>
  C8: completion is recorded exactly once. After an accepted \<open>finalize_run\<close> the task is terminal, and
  every further completion or failure of it, with any token and at any time, changes nothing and answers
  \<open>AlreadyTerminal\<close>, or \<open>Fenced\<close> when other sessions have removed the task before the answer is made up
  (a text that cannot be stored is a database error instead); every renewal is fenced.
\<close>

theorem finalized_once:
  assumes "db_inv db" "finalize_run e1 others1 rid t1 o1 db = (Inr FinApplied, db')"
  shows "terminal rid db' \<and>
    finalize_run e2 others rid t2 o2 db' =
      (if outcome_text_ok o2
       then (Inr (if terminal rid (others db') then FinAlreadyTerminal else FinFenced), others db')
       else (Inl value_error, db')) \<and>
    fail_run e2 others rid t2 err b db' =
      (if pg_text err
       then (Inr (if terminal rid (others db') then FlAlreadyTerminal else FlFenced), others db')
       else (Inl value_error, db')) \<and>
    renew_lease e2 rid t2 db' = (Inr RenewFenced, db')"
proof -
  have sch: "schema_ok db" using assms(1) by (simp add: db_inv_def)
  have "has_live_lease e1 rid t1 db" using finalize.refused_iff [OF assms] by simp
  then obtain r where r: "r \<in> set (runs db)" "live_lease e1 rid t1 r" by (auto simp: has_live_lease_def)
  obtain st ao err' where cols: "outcome_columns o1 = (st, ao, err')" by (metis prod_cases3)
  have st: "is_terminal_state st" "st \<noteq> SRunning"
    using cols by (cases rule: outcome_columns_cases [of o1]; simp add: is_terminal_state_def)+
  have db': "db' = finalized_db e1 rid t1 o1 db" "schema_ok db'"
    by (cases rule: finalize_run_live [OF assms(1) r, of others1 o1]; use assms(2) in simp)+
  then have rs: "runs db' = update_where (live_lease e1 rid t1) (finalize_update e1 st err') (runs db)"
    by (simp add: finalized_db_def cols)
  have "\<not> has_live_lease e2 rid t2 db'" "terminal rid db'"
    using live_after_close [OF sch r db'(2) rs] st by simp_all
  then show ?thesis using db'(2) by (simp add: finalize_run_fenced fail_run_fenced renew_lease_fenced)
qed

theorem finalized_once_witness:
  "let db' = snd (finalize_run (sample_env 200) id (RunId 2) (LeaseToken 7) OutCompleted sample_db)
   in finalize_run (sample_env 210) id (RunId 2) (LeaseToken 7) OutCompleted db' = (Inr FinAlreadyTerminal, db')"
  using finalized_once [OF sample_inv sample_finalized [of OutCompleted, simplified], of "sample_env 210" id "LeaseToken 7" OutCompleted]
  by (simp add: sample_finalized)

text \<open>
  C15: completion does what it says. A worker that holds the live lease, with a sane clock and an outcome
  whose text can be stored, is always accepted: the task becomes terminal with the outcome's state, error
  and finish time and without a lease, no attempt of it stays open, and the invariant holds.
\<close>

theorem finalize_run_effect:
  assumes "db_inv db" "env_ok env" "r \<in> set (runs db)" "live_lease env rid tok r" "outcome_text_ok out"
  shows "\<exists>db'. finalize_run env others rid tok out db = (Inr FinApplied, db') \<and> db_inv db' \<and>
    (\<exists>r' \<in> set (runs db'). r_id r' = rid \<and> no_lease r' \<and>
       r_state r' = (case out of OutCompleted \<Rightarrow> SCompleted | OutFailed e \<Rightarrow> SFailed) \<and>
       r_last_error r' = (case out of OutCompleted \<Rightarrow> None | OutFailed e \<Rightarrow> Some e) \<and>
       r_finished_at r' = Some (env_clock env FinishedClock rid)) \<and>
    (\<forall>a \<in> set (attempts db'). a_run_id a = rid \<longrightarrow> \<not> open_attempt a)"
proof (intro exI conjI)
  let ?db = "finalized_db env rid tok out db"
  have sch: "schema_ok db" using assms(1) by (simp add: db_inv_def)
  show run: "finalize_run env others rid tok out db = (Inr FinApplied, ?db)"
    by (rule finalize_run_succeeds [OF assms])
  show inv: "db_inv ?db" using finalize.live_inv [OF assms(1) has_live_leaseI [OF assms(3,4)], where others = others and out = out] run by simp
  obtain st ao err where cols: "outcome_columns out = (st, ao, err)" by (metis prod_cases3)
  have "finalize_update env st err r \<in> set (runs ?db)"
    using assms(3,4) by (auto simp: finalized_db_def cols set_update_where)
  then show r': "\<exists>r' \<in> set (runs ?db). r_id r' = rid \<and> no_lease r' \<and>
       r_state r' = (case out of OutCompleted \<Rightarrow> SCompleted | OutFailed e \<Rightarrow> SFailed) \<and>
       r_last_error r' = (case out of OutCompleted \<Rightarrow> None | OutFailed e \<Rightarrow> Some e) \<and>
       r_finished_at r' = Some (env_clock env FinishedClock rid)"
    using cols live_leaseD [OF assms(4)]
    by (intro bexI [of _ "finalize_update env st err r"])
      (auto simp: finalize_update_def no_lease_def outcome_columns_def split: Outcome.splits)
  have st: "st \<noteq> SRunning" using cols by (cases rule: outcome_columns_cases [of out]) auto
  show "\<forall>a \<in> set (attempts ?db). a_run_id a = rid \<longrightarrow> \<not> open_attempt a"
    using open_attempt_of_run [OF assms(1,3)] live_leaseD [OF assms(4)]
    by (auto simp: finalized_db_def cols set_update_where)
qed

theorem finalize_run_effect_witness:
  "\<exists>db'. finalize_run (sample_env 200) id (RunId 2) (LeaseToken 7) OutCompleted sample_db = (Inr FinApplied, db') \<and>
     db_inv db' \<and> (\<exists>r' \<in> set (runs db'). r_id r' = RunId 2 \<and> r_state r' = SCompleted)"
  using finalize_run_effect [OF sample_inv sample_200 sample_live, of OutCompleted id] by auto

lemma closed_view:
  assumes "schema_ok db'" "r \<in> set (runs db)" "live_lease env rid tok r"
    and "runs db' = update_where (live_lease env rid tok) f (runs db)" "r_id (f r) = r_id r"
  shows "view_of db' rid = row_view (f r)"
proof -
  have "f r \<in> set (runs db')" using assms(2,3) by (auto simp: assms(4) set_update_where)
  from view_of_row [OF assms(1) this] show ?thesis
    using assms(3,5) by (simp add: live_lease_def)
qed

text \<open>The completed task, as the abstract machine sees it.\<close>

lemma completed_view:
  assumes inv: "db_inv db" and env: "env_ok env" and r: "r \<in> set (runs db)" "live_lease env rid tok r"
  shows "view_of (finalized_db env rid tok OutCompleted db) rid = TDone SCompleted"
proof -
  have "db_inv (finalized_db env rid tok OutCompleted db)"
    using finalize.live_inv [OF inv has_live_leaseI [OF r], where others = id and out = OutCompleted]
      finalize_run_succeeds [OF inv env r] by simp
  then have "view_of (finalized_db env rid tok OutCompleted db) rid = row_view (finalize_update env SCompleted None r)"
    by (intro closed_view [OF _ r]) (simp add: db_inv_def, simp add: finalized_db_def outcome_columns_def,
      simp add: finalize_update_def)
  then show ?thesis by (simp add: finalize_update_def)
qed

text \<open>
  C16: failure by the owner, when PostgreSQL can store the error's text. The task is retried exactly when the
  handler's error is retryable and an attempt is left: it is pending again, available after the stored
  backoff, with the attempt counted. Otherwise it is failed for good. Either way the attempt is closed and
  the invariant holds. The statement returns the task's \<open>available_at\<close>, which the client reads inside the
  transaction: when that time lies beyond chrono's range the call is a decoding error and nothing changes.
\<close>

theorem fail_run_effect:
  assumes "db_inv db" "env_ok env" "r \<in> set (runs db)" "live_lease env rid tok r"
    and "pg_timestamp (env_clock env AvailableClock rid + iv_microseconds (r_retry_backoff r))" "pg_text err"
  shows "let retry = retryable \<and> r_attempt_count r < r_max_attempts r;
      available = (if retry then env_clock env AvailableClock rid + iv_microseconds (r_retry_backoff r)
        else r_available_at r)
    in if chrono_timestamp available
       then \<exists>db'. db_inv db' \<and>
         fail_run env others rid tok err retryable db = (Inr (if retry then FlRetried available else FlFailed), db') \<and>
         view_of db' rid =
           (if retry then TPending (r_attempt_count r) (r_max_attempts r) else TDone SFailed) \<and>
         (\<exists>r' \<in> set (runs db'). r_id r' = rid \<and> r_available_at r' = available) \<and>
         (\<forall>a \<in> set (attempts db'). a_run_id a = rid \<longrightarrow> \<not> open_attempt a)
       else fail_run env others rid tok err retryable db = (Inl (Database DieselDeserialization), db)"
proof -
  let ?db = "failed_db env rid tok err retryable db" and ?av = "fail_available env retryable r"
  have sch: "schema_ok db" using assms(1) by (simp add: db_inv_def)
  have rid: "r_id r = rid" "r_state r = SRunning" "r_lease_token r = Some tok"
    using live_leaseD [OF assms(4)] by auto
  have bad: "fail_run env others rid tok err retryable db = (Inl decode_error, db)" if "\<not> chrono_timestamp ?av"
    using failed_schema(1) [OF sch assms(2,6), of rid tok retryable] assms(5) live_lease_unique [OF sch assms(3,4)]
      live_leaseD by (intro fail_run_unreadable [OF sch assms(3,4) _ assms(6) that]) blast
  have run: "fail_run env others rid tok err retryable db = (Inr (fail_outcome env retryable r), ?db)"
    if "chrono_timestamp ?av"
    using assms(5,6) rid(1) that by (intro fail_run_succeeds [OF assms(1-4)]) simp_all
  have inv: "db_inv ?db" if "chrono_timestamp ?av"
    using fail.live_inv [OF assms(1) has_live_leaseI [OF assms(3,4)], where others = others and err = err and retryable = retryable] run [OF that] by simp
  have view: "view_of ?db rid = row_view (fail_update env retryable err r)" if "chrono_timestamp ?av"
    using inv [OF that] by (intro closed_view [OF _ assms(3,4)]) (simp_all add: failed_db_def db_inv_def)
  have "fail_update env retryable err r \<in> set (runs ?db)"
    using assms(3,4) by (auto simp: failed_db_def set_update_where)
  then have "\<exists>r' \<in> set (runs ?db). r_id r' = rid \<and> r_available_at r' = ?av"
    using rid(1) by (intro bexI) (simp_all add: fail_available_def)
  moreover have "\<forall>a \<in> set (attempts ?db). a_run_id a = rid \<longrightarrow> \<not> open_attempt a"
    using open_attempt_of_run [OF assms(1,3) rid(2,3)] rid(1) by (auto simp: failed_db_def set_update_where)
  ultimately have "chrono_timestamp ?av \<Longrightarrow> \<exists>db'. db_inv db' \<and>
      fail_run env others rid tok err retryable db = (Inr (fail_outcome env retryable r), db') \<and>
      view_of db' rid = row_view (fail_update env retryable err r) \<and>
      (\<exists>r' \<in> set (runs db'). r_id r' = rid \<and> r_available_at r' = ?av) \<and>
      (\<forall>a \<in> set (attempts db'). a_run_id a = rid \<longrightarrow> \<not> open_attempt a)"
    using run inv view by blast
  with bad rid(1) show ?thesis
    by (auto simp: Let_def fail_available_def fail_outcome_def fail_update_def)
qed

theorem fail_run_effect_witness:
  "\<exists>db'. fail_run (sample_env 200) id (RunId 2) (LeaseToken 7) [] True sample_db = (Inr (FlRetried 210), db') \<and>
     view_of db' (RunId 2) = TPending 1 3"
proof -
  have "pg_timestamp (env_clock (sample_env 200) AvailableClock (RunId 2) + iv_microseconds (r_retry_backoff sample_running))"
    by (simp add: sample_running_def sample_task_def sample_backoff_def pg_timestamp_def)
  from fail_run_effect [OF sample_inv sample_200 sample_live this pg_text_simps(1), where others = id and retryable = True]
  show ?thesis
    by (auto simp: Let_def sample_running_def sample_task_def sample_backoff_def chrono_timestamp_def)
qed

lemma renewed_schema:
  assumes inv: "db_inv db" and env: "env_ok env" and r: "r \<in> set (runs db)" "live_lease env rid tok r"
    and e: "pg_timestamp (renewed_expiry env r)" "\<forall>s. r_started_at r = Some s \<longrightarrow> s < renewed_expiry env r"
  shows "schema_ok (db\<lparr>runs := update_where (live_lease env rid tok) (renew_update env) (runs db)\<rparr>)"
    and "schema_ok (renewed_db env rid tok (renewed_expiry env r) db)"
proof -
  have sch: "schema_ok db" and ai: "attempts_inv (runs db) (attempts db)" using inv by (auto simp: db_inv_def)
  let ?db1 = "db\<lparr>runs := update_where (live_lease env rid tok) (renew_update env) (runs db)\<rparr>"
  have tok: "r_id r = rid" "r_state r = SRunning" "r_lease_token r = Some tok"
    using live_leaseD [OF r(2)] by auto
  show db1: "schema_ok ?db1"
  proof (rule schema_update_runs [OF sch])
    fix x assume x: "x \<in> set (runs db)" "live_lease env rid tok x"
    then have "x = r" using live_lease_unique [OF sch r x(1)] by blast
    then show "run_types (renew_update env x) \<and> run_checks (renew_update env x) \<and>
        r_id (renew_update env x) = r_id x \<and> r_job_id (renew_update env x) = r_job_id x \<and>
        r_scheduled_for (renew_update env x) = r_scheduled_for x \<and>
        r_job_name (renew_update env x) = r_job_name x \<and>
        r_deduplication_key (renew_update env x) = r_deduplication_key x"
      using schema_run [OF sch r(1)] env e tok(2)
      by (auto simp: renew_update_def run_types_def run_checks_def attempts_check_def state_check_def
          split: option.splits)
  qed
  have "schema_ok (?db1\<lparr>attempts := update_where (\<lambda>a. a_lease_token a = tok \<and> open_attempt a)
      (\<lambda>a. a\<lparr>a_lease_expires_at := renewed_expiry env r\<rparr>) (attempts ?db1)\<rparr>)"
  proof (rule schema_update_attempts [OF db1])
    fix a assume a: "a \<in> set (attempts ?db1)" "a_lease_token a = tok \<and> open_attempt a"
    obtain r' where r': "r' \<in> set (runs db)" "mirrors r' a" using attempts_invD(2) [OF ai] a by auto
    have "r' = r"
      using open_attempt_of_run [OF inv r(1) tok(2,3), of a] a r'(2)
      by (intro run_eqI [OF sch r'(1) r(1)]) (simp add: mirrors_def)
    then have "a_started_at a < renewed_expiry env r" using r'(2) e(2) by (simp add: mirrors_def)
    then show "attempt_types (a\<lparr>a_lease_expires_at := renewed_expiry env r\<rparr>) \<and>
        attempt_checks (a\<lparr>a_lease_expires_at := renewed_expiry env r\<rparr>) \<and>
        a_run_id (a\<lparr>a_lease_expires_at := renewed_expiry env r\<rparr>) = a_run_id a \<and>
        a_attempt_number (a\<lparr>a_lease_expires_at := renewed_expiry env r\<rparr>) = a_attempt_number a \<and>
        a_lease_token (a\<lparr>a_lease_expires_at := renewed_expiry env r\<rparr>) = a_lease_token a"
      using schema_attempt [OF db1 a(1)] e(1) by (simp add: attempt_types_def attempt_checks_def)
  qed
  then show "schema_ok (renewed_db env rid tok (renewed_expiry env r) db)" by (simp add: renewed_db_def)
qed

lemma renew_lease_result:
  assumes inv: "db_inv db" and env: "env_ok env" and r: "r \<in> set (runs db)" "live_lease env rid tok r"
    and e: "pg_timestamp (renewed_expiry env r)" "\<forall>s. r_started_at r = Some s \<longrightarrow> s < renewed_expiry env r"
  shows "renew_lease env rid tok db =
    (if chrono_timestamp (renewed_expiry env r)
     then (Inr (Renewed (renewed_expiry env r)), renewed_db env rid tok (renewed_expiry env r) db)
     else (Inl decode_error, db))"
proof -
  have sch: "schema_ok db" using inv by (simp add: db_inv_def)
  show ?thesis
    using renewed_schema [OF assms] filter_live_lease [OF sch r] live_one_attempt [OF inv r]
    by (simp add: renew_lease_def RENEW_def RENEW_ATTEMPT_def open_attempt_outcome transaction_def
        renewed_db_def load_renewal_def)
qed

text \<open>
  C17: renewal by the owner extends the lease. With clocks in range it answers the new expiry (the
  clock plus the stored lease duration), the task keeps running under the same token and attempt, the
  open attempt records the same expiry, and the invariant holds. When the new expiry can be stored but lies
  beyond chrono's range, the answer is a decoding error and nothing changes.
\<close>

theorem renew_lease_effect:
  assumes "db_inv db" "env_ok env" "r \<in> set (runs db)" "live_lease env rid tok r"
    and "pg_timestamp (env_clock env ExpiresClock rid + iv_microseconds (r_lease_duration r))"
    and "\<forall>s. r_started_at r = Some s \<longrightarrow> s \<le> env_clock env ExpiresClock rid"
  shows "let e = env_clock env ExpiresClock rid + iv_microseconds (r_lease_duration r)
    in if chrono_timestamp e
       then \<exists>db'. renew_lease env rid tok db = (Inr (Renewed e), db') \<and> db_inv db' \<and>
         view_of db' rid = view_of db rid \<and>
         (\<exists>r' \<in> set (runs db'). r_id r' = rid \<and> r_lease_expires_at r' = Some e) \<and>
         (\<exists>a \<in> set (attempts db'). a_run_id a = rid \<and> open_attempt a \<and> a_lease_token a = tok \<and>
            a_lease_expires_at a = e)
       else renew_lease env rid tok db = (Inl (Database DieselDeserialization), db)"
proof -
  have sch: "schema_ok db" using assms(1) by (simp add: db_inv_def)
  have tok: "r_id r = rid" "r_state r = SRunning" "r_lease_token r = Some tok"
    using live_leaseD [OF assms(4)] by auto
  let ?e = "renewed_expiry env r" and ?db = "renewed_db env rid tok (renewed_expiry env r) db"
  have e: "?e = env_clock env ExpiresClock rid + iv_microseconds (r_lease_duration r)"
    using tok(1) by (simp add: renewed_expiry_def)
  have "1 \<le> iv_microseconds (r_lease_duration r)"
    using schema_run [OF sch assms(3)] by (simp add: run_checks_def lease_duration_check_iff)
  then have fits: "pg_timestamp ?e" "\<forall>s. r_started_at r = Some s \<longrightarrow> s < ?e"
    using assms(5,6) e by (auto simp: e)
  have inv: "db_inv ?db"
    using renewed_schema(2) [OF assms(1-4) fits] renewed_db_attempts_inv [OF assms(1,3,4)] by (simp add: db_inv_def)
  have r': "renew_update env r \<in> set (runs ?db)"
    using assms(3,4) by (auto simp: renewed_db_def set_update_where)
  have "view_of ?db rid = row_view (renew_update env r)"
    using inv by (intro closed_view [OF _ assms(3,4)]) (simp_all add: renewed_db_def db_inv_def)
  also have "\<dots> = view_of db rid"
    using view_of_row [OF sch assms(3)] tok by (simp add: renew_update_def)
  finally have view: "view_of ?db rid = view_of db rid" .
  have "r_state (renew_update env r) = SRunning" using tok(2) by (simp add: renew_update_def)
  then obtain a where a: "a \<in> set (attempts ?db)" "open_attempt a" "mirrors (renew_update env r) a"
    using attempts_invD(1) [OF _ r'] inv by (auto simp: db_inv_def)
  have "\<exists>a \<in> set (attempts ?db). a_run_id a = rid \<and> open_attempt a \<and> a_lease_token a = tok \<and>
         a_lease_expires_at a = ?e"
    using a tok by (intro bexI [OF _ a(1)]) (simp add: mirrors_def renew_update_def)
  moreover have "\<exists>r' \<in> set (runs ?db). r_id r' = rid \<and> r_lease_expires_at r' = Some ?e"
    using tok(1) by (intro bexI [OF _ r']) (simp add: renew_update_def)
  ultimately show ?thesis
    unfolding e [symmetric] Let_def renew_lease_result [OF assms(1-4) fits] using inv view by simp
qed

theorem renew_lease_effect_witness:
  "\<exists>db'. renew_lease (sample_env 200) (RunId 2) (LeaseToken 7) sample_db = (Inr (Renewed 500), db') \<and> db_inv db'"
proof -
  have "pg_timestamp (env_clock (sample_env 200) ExpiresClock (RunId 2) + iv_microseconds (r_lease_duration sample_running))"
    "\<forall>s. r_started_at sample_running = Some s \<longrightarrow> s \<le> env_clock (sample_env 200) ExpiresClock (RunId 2)"
    "iv_microseconds (r_lease_duration sample_running) = 300"
    by (simp_all add: sample_running_def sample_task_def sample_lease_def pg_timestamp_def)
  with renew_lease_effect [OF sample_inv sample_200 sample_live] show ?thesis
    by (auto simp: Let_def chrono_timestamp_def)
qed

end
