(* ===== verification/Reap.thy ===== *)
theory Reap
  imports Finalize
begin

text \<open>
  \<^verbatim>\<open>src/src/store/reap.rs\<close>: recovery of tasks whose lease has run out. The statement closes the open
  attempts of a bounded batch of expired tasks and returns each task to the queue, or fails it when
  its attempts are used up.
\<close>

section \<open>The statement\<close>

record RecoverySummary =
  requeued :: nat
  failed_count :: nat

definition RecoverySummary_default :: RecoverySummary where
  "RecoverySummary_default = \<lparr>requeued = 0, failed_count = 0\<rparr>"

definition lease_expired :: "env \<Rightarrow> 'v run_row \<Rightarrow> bool" where
  "lease_expired env r \<longleftrightarrow>
     r_state r = SRunning \<and>
     (case r_lease_expires_at r of
        None \<Rightarrow> False | Some e \<Rightarrow> e \<le> env_clock env WhereClock (r_id r))"

text \<open>Only rows with an expiry are candidates, so the value chosen for \<open>None\<close> is never compared.\<close>

definition recover_rank :: "'v run_row \<Rightarrow> timestamp \<times> RunId" where
  "recover_rank r = (case r_lease_expires_at r of None \<Rightarrow> 0 | Some e \<Rightarrow> e, r_id r)"

definition recover_candidates :: "env \<Rightarrow> nat \<Rightarrow> 'v db \<Rightarrow> 'v run_row list" where
  "recover_candidates env limit db =
     select_ordered recover_rank
       (\<lambda>r. lease_expired env r \<and> \<not> env_run_locked env (r_id r)) limit (runs db)"

definition recover_update :: "env \<Rightarrow> 'v run_row \<Rightarrow> 'v run_row" where
  "recover_update env r =
     (let again = r_attempt_count r < r_max_attempts r
      in r\<lparr>r_state := (if again then SPending else SFailed),
           r_available_at := (if again then env_clock env AvailableClock (r_id r) else r_available_at r),
           r_worker_id := None, r_lease_token := None, r_lease_expires_at := None,
           r_started_at := None,
           r_finished_at := (if again then None else Some (env_clock env FinishedClock (r_id r))),
           r_last_error := (if again then None else Some (lit ''lease expired; max attempts exhausted'')),
           r_updated_at := env_clock env UpdatedClock (r_id r)\<rparr>)"

definition RECOVER :: "env \<Rightarrow> nat \<Rightarrow> 'v db \<Rightarrow> SchedulerError + StoredRunState list \<times> 'v db" where
  "RECOVER env limit db =
     (let candidates = recover_candidates env limit db;
          closes = (\<lambda>a. a_outcome a = None \<and> Some (a_lease_token a) \<in> set (map r_lease_token candidates));
          recorded = map a_run_id (filter closes (attempts db));
          recovers = (\<lambda>r. r_id r \<in> set (map r_id candidates) \<and> r_id r \<in> set recorded)
      in and_then (checked
           (db\<lparr>runs := update_where recovers (recover_update env) (runs db),
               attempts := update_where closes
                 (close_attempt env AExpired (Some (lit ''lease expired''))) (attempts db)\<rparr>)) (\<lambda>db'.
         Inr (map (r_state \<circ> recover_update env) (filter recovers (runs db)), db')))"

section \<open>The operations\<close>

fun count_recovered :: "RecoverySummary \<Rightarrow> StoredRunState list \<Rightarrow> SchedulerError + RecoverySummary" where
  "count_recovered summary [] = Inr summary"
| "count_recovered summary (SPending # rows) =
     count_recovered (summary\<lparr>requeued := requeued summary + 1\<rparr>) rows"
| "count_recovered summary (SFailed # rows) =
     count_recovered (summary\<lparr>failed_count := failed_count summary + 1\<rparr>) rows"
| "count_recovered summary (_ # rows) = Inl (Invariant ''expired recovery produced invalid state'')"

definition recover_expired :: "env \<Rightarrow> usize \<Rightarrow> 'v db \<Rightarrow> (SchedulerError + RecoverySummary) \<times> 'v db" where
  "recover_expired env limit db =
     (case i64_try_from_usize limit of
        None \<Rightarrow> (Inl (Config ''recovery batch is too large''), db)
      | Some n \<Rightarrow>
          (case transaction db (RECOVER env (nat n) db) of
             (Inl e, db') \<Rightarrow> (Inl e, db')
           | (Inr rows, db') \<Rightarrow> (count_recovered RecoverySummary_default rows, db')))"

definition reap_expired :: "env \<Rightarrow> 'v db \<Rightarrow> (SchedulerError + nat) \<times> 'v db" where
  "reap_expired env db = map_prod (map_ok failed_count) id (recover_expired env 1000 db)"

section \<open>Candidates\<close>

lemma recover_candidatesD:
  assumes "r \<in> set (recover_candidates env n db)"
  shows "r \<in> set (runs db)" "lease_expired env r" "\<not> env_run_locked env (r_id r)"
proof -
  have "r \<in> {r \<in> set (runs db). lease_expired env r \<and> \<not> env_run_locked env (r_id r)}"
    using assms unfolding recover_candidates_def by (rule subsetD [OF set_select_ordered])
  then show "r \<in> set (runs db)" "lease_expired env r" "\<not> env_run_locked env (r_id r)" by auto
qed

lemma recover_candidate_by_id:
  assumes "schema_ok db" "r \<in> set (runs db)"
  shows "r_id r \<in> r_id ` set (recover_candidates env n db) \<longleftrightarrow> r \<in> set (recover_candidates env n db)"
  using assms by (auto dest: recover_candidatesD(1) run_eqI)

lemma recover_update_keys [simp]:
  "r_id (recover_update env r) = r_id r"
  "r_job_id (recover_update env r) = r_job_id r"
  "r_scheduled_for (recover_update env r) = r_scheduled_for r"
  "r_job_name (recover_update env r) = r_job_name r"
  "r_deduplication_key (recover_update env r) = r_deduplication_key r"
  "r_attempt_count (recover_update env r) = r_attempt_count r"
  "r_state (recover_update env r) = (if r_attempt_count r < r_max_attempts r then SPending else SFailed)"
  by (simp_all add: recover_update_def Let_def)

lemma recover_update_ok:
  assumes "schema_ok db" "r \<in> set (runs db)" "env_ok env"
  shows "run_types (recover_update env r) \<and> run_checks (recover_update env r)"
  using schema_run [OF assms(1,2)] assms(3)
  by (auto simp: recover_update_def Let_def run_types_def run_checks_def attempts_check_def
      state_check_def no_lease_def)

text \<open>
  Under the invariant the open attempts of the candidates' tokens are the open attempts of the
  candidates, and every candidate has one.
\<close>

definition recovered_db :: "env \<Rightarrow> nat \<Rightarrow> 'v db \<Rightarrow> 'v db" where
  "recovered_db env n db =
     (let S = r_id ` set (recover_candidates env n db)
      in db\<lparr>runs := update_where (\<lambda>r. r_id r \<in> S) (recover_update env) (runs db),
            attempts := update_where (\<lambda>a. a_run_id a \<in> S \<and> open_attempt a)
              (close_attempt env AExpired (Some (lit ''lease expired''))) (attempts db)\<rparr>)"

lemma recover_closes_iff:
  assumes inv: "db_inv db" and a: "a \<in> set (attempts db)"
  shows "a_outcome a = None \<and> Some (a_lease_token a) \<in> set (map r_lease_token (recover_candidates env n db))
    \<longleftrightarrow> a_run_id a \<in> r_id ` set (recover_candidates env n db) \<and> open_attempt a"
proof (cases "open_attempt a")
  case True
  have "Some (a_lease_token a) = r_lease_token c \<longleftrightarrow> a_run_id a = r_id c"
    if c: "c \<in> set (recover_candidates env n db)" for c
  proof -
    have sch: "schema_ok db" using inv by (simp add: db_inv_def)
    have c': "c \<in> set (runs db)" "r_state c = SRunning"
      using recover_candidatesD(1,2) [OF c] by (auto simp: lease_expired_def)
    then obtain tok where "r_lease_token c = Some tok" using running_row [OF sch c'] by metis
    then show ?thesis using open_attempt_of_run [OF inv c' _ a True] by auto
  qed
  with True show ?thesis by (auto simp: open_attempt_def)
next
  case False
  then show ?thesis by (auto simp: open_attempt_def)
qed

lemma recover_recorded:
  assumes inv: "db_inv db" and c: "c \<in> set (recover_candidates env n db)"
  shows "\<exists>a \<in> set (attempts db). a_run_id a = r_id c \<and> open_attempt a"
proof -
  have "c \<in> set (runs db)" "r_state c = SRunning"
    using recover_candidatesD(1,2) [OF c] by (auto simp: lease_expired_def)
  then obtain a where "a \<in> set (attempts db)" "open_attempt a" "mirrors c a"
    using inv attempts_invD(1) by (metis db_inv_def)
  then show ?thesis by (auto simp: mirrors_def)
qed

lemma RECOVER_eq:
  assumes inv: "db_inv db"
  shows "RECOVER env n db = and_then (checked (recovered_db env n db)) (\<lambda>db'.
    Inr (map (r_state \<circ> recover_update env)
      (filter (\<lambda>r. r_id r \<in> r_id ` set (recover_candidates env n db)) (runs db)), db'))"
proof -
  let ?C = "recover_candidates env n db"
  let ?closes = "\<lambda>a. a_outcome a = None \<and> Some (a_lease_token a) \<in> set (map r_lease_token ?C)"
  let ?rec = "map a_run_id (filter ?closes (attempts db))"
  have closes: "filter ?closes (attempts db) =
      filter (\<lambda>a. a_run_id a \<in> r_id ` set ?C \<and> open_attempt a) (attempts db)"
    by (rule filter_cong [OF refl]) (rule recover_closes_iff [OF inv])
  have "set ?rec = r_id ` set ?C"
  proof
    show "r_id ` set ?C \<subseteq> set ?rec"
    proof
      fix i assume "i \<in> r_id ` set ?C"
      then obtain a where "a \<in> set (attempts db)" "a_run_id a = i" "open_attempt a"
        using recover_recorded [OF inv] by blast
      then show "i \<in> set ?rec" using \<open>i \<in> r_id ` set ?C\<close> unfolding closes by force
    qed
  qed (unfold closes, auto)
  then have ids: "(r_id r \<in> set (map r_id ?C) \<and> r_id r \<in> set ?rec) = (r_id r \<in> r_id ` set ?C)" for r :: "'a run_row"
    by simp
  have att: "update_where ?closes g (attempts db) =
      update_where (\<lambda>a. a_run_id a \<in> r_id ` set ?C \<and> open_attempt a) g (attempts db)" for g
    using recover_closes_iff [OF inv] by (intro update_where_cong) blast+
  show ?thesis
    unfolding RECOVER_def Let_def ids att recovered_db_def by simp
qed

lemma recovered_db_attempts_inv:
  assumes inv: "db_inv db"
  shows "attempts_inv (runs (recovered_db env n db)) (attempts (recovered_db env n db))"
  using inv by (auto simp: recovered_db_def Let_def db_inv_def intro!: attempts_inv_close split: if_splits)

lemma recovered_db_schema:
  assumes "schema_ok db" "env_ok env"
  shows "schema_ok (recovered_db env n db)"
proof -
  let ?S = "r_id ` set (recover_candidates env n db)"
  let ?db1 = "db\<lparr>runs := update_where (\<lambda>r. r_id r \<in> ?S) (recover_update env) (runs db)\<rparr>"
  have db1: "schema_ok ?db1"
    using recover_update_ok [OF assms(1) _ assms(2)] by (intro schema_update_runs assms(1)) simp_all
  then have "schema_ok (?db1\<lparr>attempts := update_where (\<lambda>a. a_run_id a \<in> ?S \<and> open_attempt a)
      (close_attempt env AExpired (Some (lit ''lease expired''))) (attempts ?db1)\<rparr>)"
    using close_attempt_ok [OF db1 _ assms(2)] by (intro schema_update_attempts) simp_all
  then show ?thesis by (simp add: recovered_db_def)
qed

section \<open>The outcome of recovery\<close>

lemma count_recovered_states:
  assumes "set rows \<subseteq> {SPending, SFailed}"
  shows "count_recovered s rows = Inr (s\<lparr>requeued := requeued s + length (filter (\<lambda>x. x = SPending) rows),
      failed_count := failed_count s + length (filter (\<lambda>x. x = SFailed) rows)\<rparr>)"
  using assms by (induction s rows rule: count_recovered.induct) auto

definition recovery_summary :: "env \<Rightarrow> nat \<Rightarrow> 'v db \<Rightarrow> RecoverySummary" where
  "recovery_summary env n db =
     \<lparr>requeued = length (filter (\<lambda>r. r_attempt_count r < r_max_attempts r) (recover_candidates env n db)),
      failed_count = length (filter (\<lambda>r. \<not> r_attempt_count r < r_max_attempts r) (recover_candidates env n db))\<rparr>"

lemma length_filter_by_id:
  assumes "schema_ok db" "set cs \<subseteq> set (runs db)" "distinct (map r_id cs)"
  shows "length (filter q (filter (\<lambda>r. r_id r \<in> r_id ` set cs) (runs db))) = length (filter q cs)"
proof -
  have "{r \<in> set (runs db). r_id r \<in> r_id ` set cs} = set cs"
    using assms(2) run_eqI [OF assms(1)] by blast
  then have "set (filter q (filter (\<lambda>r. r_id r \<in> r_id ` set cs) (runs db))) = set (filter q cs)"
    by auto
  moreover have "distinct (runs db)" "distinct cs"
    using runs_distinct [OF assms(1)] assms(3) by (simp_all add: distinct_map)
  ultimately show ?thesis by (metis distinct_card distinct_filter)
qed

lemma count_recovered_candidates:
  assumes sch: "schema_ok db"
  shows "count_recovered RecoverySummary_default (map (r_state \<circ> recover_update env)
      (filter (\<lambda>r. r_id r \<in> r_id ` set (recover_candidates env n db)) (runs db))) =
    Inr (recovery_summary env n db)"
proof -
  let ?C = "recover_candidates env n db"
  have C: "set ?C \<subseteq> set (runs db)" "distinct (map r_id ?C)"
    using recover_candidatesD(1) distinct_key_select_ordered [OF runs_distinct [OF sch]]
    by (auto simp: recover_candidates_def)
  show ?thesis
    using length_filter_by_id [OF sch C]
    by (subst count_recovered_states)
      (auto simp: recovery_summary_def RecoverySummary_default_def filter_map comp_def
        if_distrib [of "\<lambda>x. x = _"] cong: if_cong)
qed

lemma recover_expired_eq:
  assumes "db_inv db" "uint limit \<le> i64_max"
  shows "recover_expired env limit db =
    (case checked (recovered_db env (unat limit) db) of
       Inl e \<Rightarrow> (Inl e, db)
     | Inr db' \<Rightarrow> (Inr (recovery_summary env (unat limit) db), db'))"
  using assms count_recovered_candidates [of db env "unat limit"]
  by (auto simp: recover_expired_def i64_try_from_usize_def RECOVER_eq transaction_def db_inv_def
      split: sum.splits)

lemma recover_expired_cases:
  assumes inv: "db_inv db"
  obtains (Err) e where "recover_expired env limit db = (Inl e, db)"
      "e = Config ''recovery batch is too large'' \<and> i64_max < uint limit \<or> (\<exists>k. e = Database (DatabaseError k))"
  | (Ok) "recover_expired env limit db =
        (Inr (recovery_summary env (unat limit) db), recovered_db env (unat limit) db)"
      "schema_ok (recovered_db env (unat limit) db)"
proof (cases "uint limit \<le> i64_max")
  case False
  then show thesis using Err by (simp add: recover_expired_def i64_try_from_usize_def)
next
  case True
  then show thesis
    using Err Ok checked_Inl_database [of "recovered_db env (unat limit) db"]
    by (cases rule: checked_cases [of "recovered_db env (unat limit) db"])
      (auto simp: recover_expired_eq [OF inv])
qed

lemma recover_expired_inv:
  assumes "db_inv db"
  shows "db_inv (snd (recover_expired env limit db))"
  using assms recovered_db_attempts_inv [OF assms]
  by (cases rule: recover_expired_cases [OF assms, of env limit]) (auto simp: db_inv_def)

lemma recover_expired_succeeds:
  assumes inv: "db_inv db" and env: "env_ok env" and limit: "uint limit \<le> i64_max"
  shows "recover_expired env limit db =
    (Inr (recovery_summary env (unat limit) db), recovered_db env (unat limit) db)"
  using inv recovered_db_schema [of db env "unat limit"] env
  by (simp add: recover_expired_eq [OF inv limit] db_inv_def)

section \<open>Recovery is safe\<close>

lemma recovered_db_effect:
  assumes sch: "schema_ok db"
  shows "safe_effect db (recovered_db env n db)"
proof (rule safe_effect_update [OF sch])
  fix r assume r: "r \<in> set (runs db)" "r_id r \<in> r_id ` set (recover_candidates env n db)"
  then have "r \<in> set (recover_candidates env n db)" using recover_candidate_by_id [OF sch] by blast
  from recover_candidatesD(2) [OF this] have run: "r_state r = SRunning" by (simp add: lease_expired_def)
  have "r_lease_token r \<noteq> None"
    using schema_run [OF sch r(1)] run by (auto simp: run_checks_def state_check_def)
  then have "task_step (row_view r) (row_view (recover_update env r))"
    using run by (auto simp: recover_update_def Let_def task_step.finish task_step.retry)
  then show "r_id (recover_update env r) = r_id r \<and>
      task_step\<^sup>=\<^sup>= (row_view r) (row_view (recover_update env r)) \<and>
      description (recover_update env r) = description r"
    by (simp add: recover_update_def description_def Let_def)
qed (auto simp: recovered_db_def Let_def set_update_where)

interpretation recover_op: safe_operation "\<lambda>db. snd (recover_expired env limit db)"
  for env limit
proof
  fix db :: "'v db" assume inv: "db_inv db"
  then show "db_inv (snd (recover_expired env limit db))" by (rule recover_expired_inv)
  have "schema_ok db" using inv by (simp add: db_inv_def)
  with inv show "safe_effect db (snd (recover_expired env limit db))"
    by (cases rule: recover_expired_cases [of db env limit])
      (simp_all add: recovered_db_effect safe_effect_refl)
qed

section \<open>Properties\<close>

lemma recovered_view:
  assumes sch: "schema_ok db" and sch': "schema_ok (recovered_db env n db)" and r: "r \<in> set (runs db)"
  shows "view_of (recovered_db env n db) (r_id r) =
    (if r \<in> set (recover_candidates env n db)
     then if r_attempt_count r < r_max_attempts r then TPending (r_attempt_count r) (r_max_attempts r)
          else TDone SFailed
     else view_of db (r_id r))"
proof -
  let ?r = "if r \<in> set (recover_candidates env n db) then recover_update env r else r"
  have "?r \<in> set (runs (recovered_db env n db))"
    using r recover_candidate_by_id [OF sch r, of env n]
    by (auto simp: recovered_db_def Let_def set_update_where)
  from view_of_row [OF sch' this] show ?thesis
    using view_of_row [OF sch r] by (auto simp: recover_update_def Let_def split: if_splits)
qed

text \<open>
  C18: recovery takes back exactly the tasks it selects, all of which have an expired lease and are not
  locked: each is pending again if it has an attempt left and failed otherwise, every other task is as
  it was, and the summary counts the two groups, which are no more than the limit.
\<close>

theorem recover_expired_effect:
  assumes "db_inv db" "env_ok env" "uint limit \<le> i64_max"
  shows "\<exists>summary db'. recover_expired env limit db = (Inr summary, db') \<and> db_inv db' \<and>
    requeued summary + failed_count summary \<le> unat limit \<and>
    requeued summary = length (filter (\<lambda>r. r_attempt_count r < r_max_attempts r)
      (recover_candidates env (unat limit) db)) \<and>
    failed_count summary = length (filter (\<lambda>r. \<not> r_attempt_count r < r_max_attempts r)
      (recover_candidates env (unat limit) db)) \<and>
    (\<forall>r \<in> set (runs db). view_of db' (r_id r) =
      (if r \<in> set (recover_candidates env (unat limit) db)
       then if r_attempt_count r < r_max_attempts r then TPending (r_attempt_count r) (r_max_attempts r)
            else TDone SFailed
       else view_of db (r_id r))) \<and>
    (\<forall>r \<in> set (recover_candidates env (unat limit) db).
       r \<in> set (runs db) \<and> lease_expired env r \<and> \<not> env_run_locked env (r_id r))"
proof -
  let ?C = "recover_candidates env (unat limit) db"
  have sch: "schema_ok db" using assms(1) by (simp add: db_inv_def)
  have run: "recover_expired env limit db =
      (Inr (recovery_summary env (unat limit) db), recovered_db env (unat limit) db)"
    by (rule recover_expired_succeeds [OF assms])
  have inv: "db_inv (recovered_db env (unat limit) db)"
    using recover_expired_inv [OF assms(1), of env limit] run by simp
  have "length ?C \<le> unat limit" unfolding recover_candidates_def by (rule length_select_ordered)
  then have sum: "requeued (recovery_summary env (unat limit) db) +
      failed_count (recovery_summary env (unat limit) db) \<le> unat limit"
    using sum_length_filter_compl [of "\<lambda>r. r_attempt_count r < r_max_attempts r" ?C]
    by (simp add: recovery_summary_def)
  have "\<forall>r \<in> set (runs db). view_of (recovered_db env (unat limit) db) (r_id r) =
      (if r \<in> set ?C
       then if r_attempt_count r < r_max_attempts r then TPending (r_attempt_count r) (r_max_attempts r)
            else TDone SFailed
       else view_of db (r_id r))"
    using recovered_view [OF sch, of env "unat limit"] inv by (simp add: db_inv_def)
  with run inv sum recover_candidatesD [of _ env "unat limit" db] show ?thesis
    by (intro exI conjI) (assumption | simp add: recovery_summary_def | blast)+
qed

theorem recover_expired_effect_witness:
  "\<exists>summary db'. recover_expired (sample_env 500) 10 sample_db = (Inr summary, db') \<and>
     requeued summary = 1 \<and> failed_count summary = 0"
proof -
  have "env_ok (sample_env 500)" by (rule sample_env_ok) (simp add: pg_timestamp_def)
  moreover have "uint (10 :: usize) \<le> i64_max" by (simp add: i64_max_def)
  moreover have "recover_candidates (sample_env 500) (unat (10 :: usize)) sample_db = [sample_running]"
    by (simp add: recover_candidates_def select_ordered_def lease_expired_def sample_db_def sample_rows)
  ultimately show ?thesis
    using recover_expired_effect [OF sample_inv, of "sample_env 500" 10]
    by (auto simp: sample_running_def sample_task_def)
qed

text \<open>
  C19: a sufficient recovery leaves no expired lease behind: when the limit covers the expired,
  unlocked tasks, every task whose lease is still expired by the same clock readings was locked.
\<close>

theorem recover_expired_complete:
  assumes "db_inv db" "env_ok env" "uint limit \<le> i64_max"
    and "length (filter (\<lambda>r. lease_expired env r \<and> \<not> env_run_locked env (r_id r)) (runs db)) \<le> unat limit"
  shows "\<forall>r \<in> set (runs (snd (recover_expired env limit db))).
    lease_expired env r \<longrightarrow> env_run_locked env (r_id r)"
proof -
  let ?p = "\<lambda>r. lease_expired env r \<and> \<not> env_run_locked env (r_id r)"
  let ?S = "r_id ` set (recover_candidates env (unat limit) db)"
  have C: "set (recover_candidates env (unat limit) db) = {r \<in> set (runs db). ?p r}"
    unfolding recover_candidates_def by (rule select_ordered_all [OF assms(4)])
  have "\<not> lease_expired env (recover_update env r)" for r :: "'a run_row"
    by (simp add: lease_expired_def)
  then have "\<forall>r \<in> set (update_where (\<lambda>r. r_id r \<in> ?S) (recover_update env) (runs db)).
      lease_expired env r \<longrightarrow> env_run_locked env (r_id r)"
    unfolding ball_update_where using C by blast
  then show ?thesis by (simp add: recover_expired_succeeds [OF assms(1-3)] recovered_db_def Let_def)
qed

theorem recover_expired_complete_witness:
  "list_all (\<lambda>r. \<not> lease_expired (sample_env 500) r) (runs (snd (recover_expired (sample_env 500) 10 sample_db)))"
proof -
  have "env_ok (sample_env 500)" by (rule sample_env_ok) (simp add: pg_timestamp_def)
  moreover have "uint (10 :: usize) \<le> i64_max" by (simp add: i64_max_def)
  moreover have "length (filter (\<lambda>r. lease_expired (sample_env 500) r \<and>
      \<not> env_run_locked (sample_env 500) (r_id r)) (runs sample_db)) \<le> unat (10 :: usize)"
    by (simp add: lease_expired_def sample_db_def sample_rows)
  ultimately have "\<forall>r \<in> set (runs (snd (recover_expired (sample_env 500) 10 sample_db))).
      lease_expired (sample_env 500) r \<longrightarrow> env_run_locked (sample_env 500) (r_id r)"
    by (rule recover_expired_complete [OF sample_inv])
  then show ?thesis by (auto simp: list_all_iff)
qed

end
