(* ===== verification/Queue.thy ===== *)
theory Queue
  imports Finalize
begin

text \<open>
  \<^verbatim>\<open>src/src/queue.rs\<close>: enqueueing with deduplication, cancellation and retention. The payload's
  serialization and the delivery of \<open>pg_notify\<close> are parameters: what they return is an argument of
  \<open>enqueue\<close>. The statements run in autocommit mode, so \<open>cancel\<close>'s two statements may be separated by
  the commits of other sessions, which are the argument \<open>others\<close>. At the isolation level \<open>READ COMMITTED\<close> a
  statement that waits for a row lock goes on with the latest version of the row, but finds rows of other
  tables as of its start; \<open>snap\<close> is the database when the cancellation statement started, \<open>db\<close> the one
  when it has the lock.
\<close>

section \<open>Options\<close>

datatype Priority = Priority "16 word"

definition Priority_new :: "16 word \<Rightarrow> Priority" where
  "Priority_new value = Priority value"

definition NORMAL :: Priority where
  "NORMAL = Priority_new 0"

primrec Priority_get :: "Priority \<Rightarrow> int" where
  "Priority_get (Priority w) = sint w"

datatype Availability = Immediate | At timestamp

datatype Deduplication = NoKey | Key DeduplicationKey

record EnqueueOptions =
  availability :: Availability
  priority :: Priority
  lease_duration :: LeaseDuration
  max_attempts :: MaxAttempts
  retry_backoff :: RetryBackoff
  deduplication :: Deduplication

definition EnqueueOptions_default :: EnqueueOptions where
  "EnqueueOptions_default =
     \<lparr>availability = Immediate, priority = NORMAL, lease_duration = LeaseDuration_default_value,
      max_attempts = MaxAttempts_default_value, retry_backoff = RetryBackoff_default,
      deduplication = NoKey\<rparr>"

definition immediate :: EnqueueOptions where
  "immediate = EnqueueOptions_default"

definition at :: "timestamp \<Rightarrow> EnqueueOptions" where
  "at available_at = EnqueueOptions_default\<lparr>availability := At available_at\<rparr>"

definition with_priority :: "Priority \<Rightarrow> EnqueueOptions \<Rightarrow> EnqueueOptions" where
  "with_priority p opts = opts\<lparr>priority := p\<rparr>"

definition with_lease_duration :: "LeaseDuration \<Rightarrow> EnqueueOptions \<Rightarrow> EnqueueOptions" where
  "with_lease_duration l opts = opts\<lparr>lease_duration := l\<rparr>"

definition with_max_attempts :: "MaxAttempts \<Rightarrow> EnqueueOptions \<Rightarrow> EnqueueOptions" where
  "with_max_attempts m opts = opts\<lparr>max_attempts := m\<rparr>"

definition with_retry_backoff :: "RetryBackoff \<Rightarrow> EnqueueOptions \<Rightarrow> EnqueueOptions" where
  "with_retry_backoff b opts = opts\<lparr>retry_backoff := b\<rparr>"

definition deduplicate :: "DeduplicationKey \<Rightarrow> EnqueueOptions \<Rightarrow> EnqueueOptions" where
  "deduplicate k opts = opts\<lparr>deduplication := Key k\<rparr>"

section \<open>Enqueueing\<close>

definition enqueued_row ::
    "env \<Rightarrow> JobName \<Rightarrow> 'v \<Rightarrow> timestamp option \<Rightarrow> int \<Rightarrow> int \<Rightarrow> pg_interval \<Rightarrow> pg_interval \<Rightarrow>
       DeduplicationKey option \<Rightarrow> 'v run_row" where
  "enqueued_row env name args available_at prio tries lease backoff key =
     (let t = (case available_at of None \<Rightarrow> env_now env | Some t \<Rightarrow> t)
      in \<lparr>r_id = RunId (env_new_uuid env), r_job_id = None, r_scheduled_for = t,
          r_attempt_count = 0, r_created_at = env_now env, r_updated_at = env_now env,
          r_job_name = name, r_job_args = args, r_available_at = t, r_priority = prio,
          r_state = SPending, r_max_attempts = tries, r_lease_duration = lease,
          r_retry_backoff = backoff, r_worker_id = None, r_lease_token = None,
          r_lease_expires_at = None, r_started_at = None, r_finished_at = None,
          r_last_error = None, r_deduplication_key = key\<rparr>)"

definition ENQUEUE ::
    "env \<Rightarrow> JobName \<Rightarrow> 'v \<Rightarrow> timestamp option \<Rightarrow> int \<Rightarrow> int \<Rightarrow> pg_interval \<Rightarrow> pg_interval \<Rightarrow>
       DeduplicationKey option \<Rightarrow> 'v db \<Rightarrow> SchedulerError + RunId list \<times> 'v db" where
  "ENQUEUE env name args available_at prio tries lease backoff key db =
     (let new = enqueued_row env name args available_at prio tries lease backoff key;
          conflict = (\<lambda>r. key \<noteq> None \<and> r_deduplication_key r \<noteq> None \<and> dedup_key_of r = dedup_key_of new)
      in and_then (admit (run_types new) (run_checks new)) (\<lambda>_.
         if \<exists>r \<in> set (runs db). conflict r
         then and_then (checked (db\<lparr>runs := update_where conflict
                (\<lambda>r. r\<lparr>r_deduplication_key := key\<rparr>) (runs db)\<rparr>)) (\<lambda>db'.
              Inr (map r_id (filter conflict (runs db)), db'))
         else and_then (checked (db\<lparr>runs := runs db @ [new]\<rparr>)) (\<lambda>db'. Inr ([r_id new], db'))))"

record EnqueuedTask =
  task_id :: RunId

definition enqueue ::
    "env \<Rightarrow> ('a \<Rightarrow> rust_string + 'v) \<Rightarrow> (SchedulerError + unit) \<Rightarrow> rust_string \<Rightarrow> 'a \<Rightarrow> EnqueueOptions \<Rightarrow>
       'v db \<Rightarrow> (SchedulerError + EnqueuedTask) \<times> 'v db" where
  "enqueue env to_value notify NAME args options db =
     (case and_then (map_err Identifier (JobName_try_from NAME)) (\<lambda>name.
           map_ok (Pair name) (map_err Serde (to_value args))) of
        Inl e \<Rightarrow> (Inl e, db)
      | Inr (name, value) \<Rightarrow>
          (let available_at = (case availability options of Immediate \<Rightarrow> None | At t \<Rightarrow> Some t);
               key = (case deduplication options of NoKey \<Rightarrow> None | Key k \<Rightarrow> Some k)
           in case transaction db (ENQUEUE env name value available_at
                     (Priority_get (priority options)) (MaxAttempts_to_i32 (max_attempts options))
                     (LeaseDuration_to_pg_interval (lease_duration options))
                     (RetryBackoff_to_pg_interval (retry_backoff options)) key db) of
                (Inl e, db') \<Rightarrow> (Inl e, db')
              | (Inr [], db') \<Rightarrow> (Inl (Database DieselNotFound), db')
              | (Inr (i # _), db') \<Rightarrow> (map_ok (\<lambda>_. \<lparr>task_id = i\<rparr>) notify, db')))"

section \<open>Cancellation\<close>

datatype CancelOutcome = Cancelled | CanAlreadyTerminal | CanNotFound

definition cancel_update :: "env \<Rightarrow> 'v run_row \<Rightarrow> 'v run_row" where
  "cancel_update env r =
     r\<lparr>r_state := SCancelled, r_worker_id := None, r_lease_token := None, r_lease_expires_at := None,
       r_started_at := None, r_finished_at := Some (env_clock env FinishedClock (r_id r)),
       r_last_error := None, r_updated_at := env_clock env UpdatedClock (r_id r)\<rparr>"

text \<open>The scan for open attempts meets the rows that were there, and open, when the statement started.\<close>

definition visible :: "'v db \<Rightarrow> attempt_row \<Rightarrow> bool" where
  "visible snap a \<longleftrightarrow>
     (\<exists>b \<in> set (attempts snap). a_run_id b = a_run_id a \<and> a_attempt_number b = a_attempt_number a \<and>
        a_lease_token b = a_lease_token a \<and> a_outcome b = None)"

definition CANCEL :: "env \<Rightarrow> 'v db \<Rightarrow> RunId \<Rightarrow> 'v db \<Rightarrow> SchedulerError + RunId list \<times> 'v db" where
  "CANCEL env snap tid db =
     (let target = filter (\<lambda>r. r_id r = tid \<and> r_id r \<in> r_id ` set (runs snap)) (runs db);
          closes = (\<lambda>a. visible snap a \<and> (\<exists>t \<in> set target. r_state t = SRunning \<and>
             r_lease_token t = Some (a_lease_token a) \<and> a_outcome a = None));
          attempt = map a_run_id (filter closes (attempts db));
          cancels = (\<lambda>r. \<exists>t \<in> set target. r_id r = r_id t \<and>
             (r_state t = SPending \<or> r_state t = SRunning) \<and>
             (r_state t = SPending \<or> r_id r \<in> set attempt))
      in and_then (checked
           (db\<lparr>runs := update_where cancels (cancel_update env) (runs db),
               attempts := update_where closes (close_attempt env ACancelled None) (attempts db)\<rparr>)) (\<lambda>db'.
         Inr (map r_id (filter cancels (runs db)), db')))"

definition cancel ::
    "env \<Rightarrow> 'v db \<Rightarrow> ('v db \<Rightarrow> 'v db) \<Rightarrow> RunId \<Rightarrow> 'v db \<Rightarrow> (SchedulerError + CancelOutcome) \<times> 'v db" where
  "cancel env snap others tid db =
     (case transaction db (CANCEL env snap tid db) of
        (Inl e, db1) \<Rightarrow> (Inl e, db1)
      | (Inr changed, db1) \<Rightarrow>
          if changed \<noteq> [] then (Inr Cancelled, db1)
          else (let db2 = others db1
                in (Inr (if \<exists>r \<in> set (runs db2). r_id r = tid then CanAlreadyTerminal else CanNotFound), db2)))"

section \<open>Retention\<close>

definition prunable :: "timestamp \<Rightarrow> 'v run_row \<Rightarrow> bool" where
  "prunable before r \<longleftrightarrow>
     (r_state r = SCompleted \<or> r_state r = SFailed \<or> r_state r = SCancelled) \<and>
     (case r_finished_at r of None \<Rightarrow> False | Some f \<Rightarrow> f < before)"

text \<open>Only rows with a finish time are candidates, so the value chosen for \<open>None\<close> is never compared.\<close>

definition prune_rank :: "'v run_row \<Rightarrow> timestamp \<times> RunId" where
  "prune_rank r = (case r_finished_at r of None \<Rightarrow> 0 | Some f \<Rightarrow> f, r_id r)"

definition doomed :: "env \<Rightarrow> timestamp \<Rightarrow> nat \<Rightarrow> 'v db \<Rightarrow> 'v run_row list" where
  "doomed env before limit db =
     select_ordered prune_rank (\<lambda>r. prunable before r \<and> \<not> env_run_locked env (r_id r)) limit (runs db)"

text \<open>The foreign key of the attempts cascades.\<close>

definition PRUNE :: "env \<Rightarrow> timestamp \<Rightarrow> nat \<Rightarrow> 'v db \<Rightarrow> SchedulerError + nat \<times> 'v db" where
  "PRUNE env before limit db =
     (let ids = set (map r_id (doomed env before limit db))
      in and_then (bind_timestamp before) (\<lambda>_.
         and_then (checked (db\<lparr>runs := filter (\<lambda>r. r_id r \<notin> ids) (runs db),
                               attempts := filter (\<lambda>a. a_run_id a \<notin> ids) (attempts db)\<rparr>)) (\<lambda>db'.
         Inr (length (filter (\<lambda>r. r_id r \<in> ids) (runs db)), db'))))"

definition prune_terminal ::
    "env \<Rightarrow> timestamp \<Rightarrow> usize \<Rightarrow> 'v db \<Rightarrow> (SchedulerError + nat) \<times> 'v db" where
  "prune_terminal env before limit db =
     (case i64_try_from_usize limit of
        None \<Rightarrow> (Inl (Config ''retention batch is too large''), db)
      | Some n \<Rightarrow> transaction db (PRUNE env before (nat n) db))"


section \<open>Properties of enqueueing\<close>

lemma sint_i16: "in_i16 (sint (w :: 16 word))"
  using sint_greater_eq [of w] sint_less [of w] by (simp add: int_range_defs)

text \<open>Options built from validated parts: what the types of the fields guarantee.\<close>

definition options_inv :: "EnqueueOptions \<Rightarrow> bool" where
  "options_inv o' \<longleftrightarrow> LeaseDuration_inv (lease_duration o') \<and> MaxAttempts_inv (max_attempts o') \<and>
     RetryBackoff_inv (retry_backoff o') \<and>
     (case deduplication o' of NoKey \<Rightarrow> True | Key k \<Rightarrow> identifier_ok (DeduplicationKey_as_str k))"

definition options_time :: "env \<Rightarrow> EnqueueOptions \<Rightarrow> timestamp" where
  "options_time env o' = (case availability o' of Immediate \<Rightarrow> env_now env | At t \<Rightarrow> t)"

definition options_key :: "EnqueueOptions \<Rightarrow> DeduplicationKey option" where
  "options_key o' = (case deduplication o' of NoKey \<Rightarrow> None | Key k \<Rightarrow> Some k)"

text \<open>A name and a key that PostgreSQL can store.\<close>

definition enqueue_texts_ok :: "rust_string \<Rightarrow> EnqueueOptions \<Rightarrow> bool" where
  "enqueue_texts_ok NAME o' \<longleftrightarrow> pg_text NAME \<and> opt_all (\<lambda>k. pg_text (DeduplicationKey_as_str k)) (options_key o')"

definition options_row :: "env \<Rightarrow> JobName \<Rightarrow> 'v \<Rightarrow> EnqueueOptions \<Rightarrow> 'v run_row" where
  "options_row env name v o' =
     enqueued_row env name v (case availability o' of Immediate \<Rightarrow> None | At t \<Rightarrow> Some t)
       (Priority_get (priority o')) (MaxAttempts_to_i32 (max_attempts o'))
       (LeaseDuration_to_pg_interval (lease_duration o'))
       (RetryBackoff_to_pg_interval (retry_backoff o')) (options_key o')"

lemma enqueued_row_sel [simp]:
  "r_id (enqueued_row env name v at' p m l b k) = RunId (env_new_uuid env)"
  "r_state (enqueued_row env name v at' p m l b k) = SPending"
  "r_attempt_count (enqueued_row env name v at' p m l b k) = 0"
  "r_job_id (enqueued_row env name v at' p m l b k) = None"
  "r_deduplication_key (enqueued_row env name v at' p m l b k) = k"
  "r_job_name (enqueued_row env name v at' p m l b k) = name"
  by (simp_all add: enqueued_row_def Let_def)

text \<open>Validated options are admitted by the schema when their texts can be stored.\<close>

lemma options_row_ok:
  assumes "options_inv o'" "identifier_ok (JobName_as_str name)" "env_ok env"
    and "pg_timestamp (options_time env o')" "enqueue_texts_ok (JobName_as_str name) o'"
  shows "run_types (options_row env name v o') \<and> run_checks (options_row env name v o')"
proof -
  obtain w where w: "priority o' = Priority w" by (cases "priority o'")
  have "name_check pg_space (JobName_as_str name)"
    using assms(2) pg_space_whitespace by (rule identifier_name_check)
  moreover have "pg_interval_type (LeaseDuration_to_pg_interval (lease_duration o'))"
    "lease_duration_check (LeaseDuration_to_pg_interval (lease_duration o'))"
    "pg_interval_type (RetryBackoff_to_pg_interval (retry_backoff o'))"
    "retry_backoff_check (RetryBackoff_to_pg_interval (retry_backoff o'))"
    using assms(1)
    by (auto simp: options_inv_def LeaseDuration_inv_def RetryBackoff_inv_def pg_interval_type_def
        LeaseDuration_to_pg_interval_def RetryBackoff_to_pg_interval_def lease_duration_check_iff
        retry_backoff_check_iff int_range_defs)
  moreover have "in_i32 (MaxAttempts_to_i32 (max_attempts o'))" "1 \<le> MaxAttempts_to_i32 (max_attempts o')"
    using assms(1) by (auto simp: options_inv_def MaxAttempts_inv_def int_range_defs)
  moreover have "in_i32 0" by (simp add: int_range_defs)
  ultimately show ?thesis
    using assms sint_i16 [of w] w
    by (auto simp: options_row_def enqueued_row_def Let_def run_types_def run_checks_def
        attempts_check_def state_check_def no_lease_def options_time_def options_key_def options_inv_def
        identifier_ok_def MAX_IDENTIFIER_LEN_def Suc_le_eq enqueue_texts_ok_def
        split: Availability.splits Deduplication.splits)
qed

lemma dedup_conflict_unique:
  assumes sch: "schema_ok db" and r: "r \<in> set (runs db)" "r_deduplication_key r \<noteq> None"
    and x: "x \<in> set (runs db)" "r_deduplication_key x \<noteq> None" "dedup_key_of x = dedup_key_of r"
  shows "x = r"
proof (rule distinct_key_eq)
  show "distinct (map dedup_key_of (filter (\<lambda>r. r_deduplication_key r \<noteq> None) (runs db)))"
    using sch by (simp add: schema_ok_def unique_ok_def runs_unique_def)
qed (use r x in auto)

text \<open>A conflicting insertion returns the existing task and leaves the tables as they were.\<close>

lemma ENQUEUE_conflict:
  assumes sch: "schema_ok db"
    and r: "r \<in> set (runs db)" "r_job_name r = name" "r_deduplication_key r = Some k"
    and ok: "run_types (enqueued_row env name v at' p m l b (Some k))"
      "run_checks (enqueued_row env name v at' p m l b (Some k))"
  shows "ENQUEUE env name v at' p m l b (Some k) db = Inr ([r_id r], db)"
proof -
  let ?new = "enqueued_row env name v at' p m l b (Some k)"
  let ?c = "\<lambda>r. r_deduplication_key r \<noteq> None \<and> dedup_key_of r = dedup_key_of ?new"
  have r': "r_deduplication_key r \<noteq> None" "dedup_key_of r = dedup_key_of ?new"
    using r by (simp_all add: dedup_key_of_def)
  have c: "?c x \<longleftrightarrow> x = r" if x: "x \<in> set (runs db)" for x
  proof
    assume "?c x"
    then show "x = r" using dedup_conflict_unique [OF sch r(1) r'(1) x] r'(2) by simp
  qed (use r' in simp)
  have "set (filter ?c (runs db)) = {r}" using c r(1) by auto
  moreover have "distinct (runs db)" using runs_distinct [OF sch] by (simp add: distinct_map)
  ultimately have f: "filter ?c (runs db) = [r]"
    by (intro distinct_set_singleton) simp_all
  have u: "update_where ?c (\<lambda>r. r\<lparr>r_deduplication_key := Some k\<rparr>) (runs db) = runs db"
    by (rule update_where_id) (simp add: dedup_key_of_def)
  have ex: "\<exists>r \<in> set (runs db). ?c r" using r(1) r' by blast
  show ?thesis
    unfolding ENQUEUE_def Let_def using ok ex f u sch by simp
qed

lemma ENQUEUE_insert:
  assumes "k = None \<or> (\<forall>r \<in> set (runs db). \<not> (r_job_name r = name \<and> r_deduplication_key r = k))"
  shows "ENQUEUE env name v at' p m l b k db =
    and_then (admit (run_types (enqueued_row env name v at' p m l b k))
      (run_checks (enqueued_row env name v at' p m l b k))) (\<lambda>_.
    and_then (checked (db\<lparr>runs := runs db @ [enqueued_row env name v at' p m l b k]\<rparr>)) (\<lambda>db'.
    Inr ([RunId (env_new_uuid env)], db')))"
proof -
  have "\<not> (\<exists>r \<in> set (runs db). k \<noteq> None \<and> r_deduplication_key r \<noteq> None \<and>
      dedup_key_of r = dedup_key_of (enqueued_row env name v at' p m l b k))"
    using assms by (auto simp: dedup_key_of_def)
  then show ?thesis unfolding ENQUEUE_def Let_def by (simp only: if_False enqueued_row_sel)
qed

text \<open>Every enqueue either fails without effect, finds the task, or appends a pending one.\<close>

lemma ENQUEUE_cases:
  assumes sch: "schema_ok db"
  obtains (Err) e where "ENQUEUE env name v at' p m l b k db = Inl e"
  | (Found) r where "r \<in> set (runs db)" "r_job_name r = name" "r_deduplication_key r = k" "k \<noteq> None"
      "ENQUEUE env name v at' p m l b k db = Inr ([r_id r], db)"
  | (New) "ENQUEUE env name v at' p m l b k db = Inr ([RunId (env_new_uuid env)],
        db\<lparr>runs := runs db @ [enqueued_row env name v at' p m l b k]\<rparr>)"
      "schema_ok (db\<lparr>runs := runs db @ [enqueued_row env name v at' p m l b k]\<rparr>)"
proof (cases "ENQUEUE env name v at' p m l b k db")
  case (Inl e)
  then show thesis by (rule Err)
next
  case (Inr y)
  show thesis
  proof (cases "k = None \<or> (\<forall>r \<in> set (runs db). \<not> (r_job_name r = name \<and> r_deduplication_key r = k))")
    case True
    show thesis using Inr New unfolding ENQUEUE_insert [OF True] by (auto simp: and_then_Inr_iff)
  next
    case False
    then obtain r k' where r: "r \<in> set (runs db)" "r_job_name r = name" "r_deduplication_key r = Some k'"
      and k: "k = Some k'" by auto
    from Inr have "run_types (enqueued_row env name v at' p m l b k)"
      "run_checks (enqueued_row env name v at' p m l b k)"
      by (auto simp: ENQUEUE_def Let_def and_then_Inr_iff)
    then show thesis using Found [OF r(1,2)] ENQUEUE_conflict [OF sch r] r(3) k by simp
  qed
qed


lemma enqueue_unfold:
  assumes "JobName_try_from NAME = Inr name" "to_value args = Inr v"
  shows "enqueue env to_value notify NAME args o' db =
    (case transaction db (ENQUEUE env name v (case availability o' of Immediate \<Rightarrow> None | At t \<Rightarrow> Some t)
            (Priority_get (priority o')) (MaxAttempts_to_i32 (max_attempts o'))
            (LeaseDuration_to_pg_interval (lease_duration o'))
            (RetryBackoff_to_pg_interval (retry_backoff o')) (options_key o') db) of
       (Inl e, db') \<Rightarrow> (Inl e, db')
     | (Inr [], db') \<Rightarrow> (Inl (Database DieselNotFound), db')
     | (Inr (i # _), db') \<Rightarrow> (map_ok (\<lambda>_. \<lparr>task_id = i\<rparr>) notify, db'))"
  using assms by (simp add: enqueue_def options_key_def Let_def)

lemma enqueue_cases:
  assumes sch: "schema_ok db"
  obtains (Err) e where "enqueue env to_value notify NAME args o' db = (Inl e, db)"
  | (Found) r k where "r \<in> set (runs db)" "JobName_try_from NAME = Inr (r_job_name r)"
      "options_key o' = Some k" "r_deduplication_key r = Some k"
      "enqueue env to_value notify NAME args o' db = (map_ok (\<lambda>_. \<lparr>task_id = r_id r\<rparr>) notify, db)"
  | (New) name v where "JobName_try_from NAME = Inr name" "to_value args = Inr v"
      "enqueue env to_value notify NAME args o' db =
        (map_ok (\<lambda>_. \<lparr>task_id = RunId (env_new_uuid env)\<rparr>) notify,
         db\<lparr>runs := runs db @ [options_row env name v o']\<rparr>)"
      "schema_ok (db\<lparr>runs := runs db @ [options_row env name v o']\<rparr>)"
proof (cases "JobName_try_from NAME")
  case (Inl e)
  then show thesis using Err by (simp add: enqueue_def)
next
  case name: (Inr name)
  show thesis
  proof (cases "to_value args")
    case (Inl e)
    then show thesis using Err name by (simp add: enqueue_def)
  next
    case (Inr v)
    show thesis
      by (cases rule: ENQUEUE_cases [OF sch, of env name v
            "case availability o' of Immediate \<Rightarrow> None | At t \<Rightarrow> Some t" "Priority_get (priority o')"
            "MaxAttempts_to_i32 (max_attempts o')" "LeaseDuration_to_pg_interval (lease_duration o')"
            "RetryBackoff_to_pg_interval (retry_backoff o')" "options_key o'"])
        (use Err Found New name Inr in \<open>auto simp: enqueue_unfold transaction_def options_row_def\<close>)
  qed
qed

lemma options_row_sel [simp]:
  "r_id (options_row env name v o') = RunId (env_new_uuid env)"
  "r_state (options_row env name v o') = SPending"
  "r_attempt_count (options_row env name v o') = 0"
  "r_deduplication_key (options_row env name v o') = options_key o'"
  "r_job_name (options_row env name v o') = name"
  "r_job_id (options_row env name v o') = None"
  by (simp_all add: options_row_def)

lemma enqueue_inv:
  assumes "db_inv db"
  shows "db_inv (snd (enqueue env to_value notify NAME args o' db))"
proof -
  have sch: "schema_ok db" using assms by (simp add: db_inv_def)
  show ?thesis
    by (cases rule: enqueue_cases [OF sch, of env to_value notify NAME args o'])
      (use assms in \<open>simp_all add: db_inv_insert\<close>)
qed


section \<open>Properties of cancellation\<close>

definition active :: "RunId \<Rightarrow> 'v db \<Rightarrow> bool" where
  "active tid db \<longleftrightarrow>
     (\<exists>r \<in> set (runs db). r_id r = tid \<and> (r_state r = SPending \<or> r_state r = SRunning))"

definition cancelled_db :: "env \<Rightarrow> RunId \<Rightarrow> 'v db \<Rightarrow> 'v db" where
  "cancelled_db env tid db =
     db\<lparr>runs := update_where (\<lambda>r. r_id r = tid) (cancel_update env) (runs db),
        attempts := update_where (\<lambda>a. a_run_id a = tid \<and> open_attempt a)
          (close_attempt env ACancelled None) (attempts db)\<rparr>"

lemma cancel_update_keys [simp]:
  "r_id (cancel_update env r) = r_id r"
  "r_job_id (cancel_update env r) = r_job_id r"
  "r_scheduled_for (cancel_update env r) = r_scheduled_for r"
  "r_job_name (cancel_update env r) = r_job_name r"
  "r_deduplication_key (cancel_update env r) = r_deduplication_key r"
  "r_attempt_count (cancel_update env r) = r_attempt_count r"
  "r_state (cancel_update env r) = SCancelled"
  by (simp_all add: cancel_update_def)

lemma open_attempts_of_task:
  assumes inv: "db_inv db" and r: "r \<in> set (runs db)" and a: "a \<in> set (attempts db)"
  shows "r_state r = SRunning \<and> r_lease_token r = Some (a_lease_token a) \<and> open_attempt a \<longleftrightarrow>
    a_run_id a = r_id r \<and> open_attempt a"
proof (cases "open_attempt a")
  case True
  have sch: "schema_ok db" and ai: "attempts_inv (runs db) (attempts db)"
    using inv by (auto simp: db_inv_def)
  obtain r' where r': "r' \<in> set (runs db)" "mirrors r' a" using attempts_invD(2) [OF ai a True] by blast
  show ?thesis
  proof (cases "r_state r = SRunning")
    case run: True
    have "r_lease_token r \<noteq> None"
      using schema_run [OF sch r] run by (auto simp: run_checks_def state_check_def)
    then obtain tok where tok: "r_lease_token r = Some tok" by blast
    from open_attempt_of_run [OF inv r run tok a True] show ?thesis
      by (simp add: run tok True eq_commute)
  next
    case False
    then have "r' \<noteq> r" using r'(2) by (auto simp: mirrors_def)
    then have "a_run_id a \<noteq> r_id r"
      using run_eqI [OF sch r'(1) r] r'(2) by (auto simp: mirrors_def)
    then show ?thesis using False by simp
  qed
qed simp

text \<open>The statement sees the task and the attempt it has to close.\<close>

definition seen :: "'v db \<Rightarrow> RunId \<Rightarrow> 'v db \<Rightarrow> bool" where
  "seen snap tid db \<longleftrightarrow> tid \<in> r_id ` set (runs snap) \<and>
     (\<forall>a \<in> set (attempts db). a_run_id a = tid \<and> open_attempt a \<longrightarrow> visible snap a)"

lemma seen_now: "active tid db \<Longrightarrow> seen db tid db"
  by (auto simp: seen_def active_def visible_def open_attempt_def)

text \<open>The attempts that the statement closes, and whether it then cancels the task.\<close>

lemma CANCEL_closes:
  assumes inv: "db_inv db" and r: "r \<in> set (runs db)" "r_id r = tid" and a: "a \<in> set (attempts db)"
  shows "visible snap a \<and> (\<exists>t \<in> set [r]. r_state t = SRunning \<and>
      r_lease_token t = Some (a_lease_token a) \<and> a_outcome a = None) \<longleftrightarrow>
    visible snap a \<and> a_run_id a = tid \<and> open_attempt a"
  using open_attempts_of_task [OF inv r(1) a] r(2) by (auto simp: open_attempt_def)

lemma CANCEL_target:
  assumes "schema_ok db" "r \<in> set (runs db)" "r_id r = tid" "tid \<in> r_id ` set (runs snap)"
  shows "filter (\<lambda>r. r_id r = tid \<and> r_id r \<in> r_id ` set (runs snap)) (runs db) = [r]"
proof -
  have eq: "(\<lambda>x. r_id x = tid \<and> r_id x \<in> r_id ` set (runs snap)) = (\<lambda>x. r_id x = tid)"
    using assms(4) by auto
  show ?thesis unfolding eq using filter_by_id [OF assms(1,2)] assms(3) by simp
qed

lemma CANCEL_active:
  assumes inv: "db_inv db" and act: "active tid db" and seen: "seen snap tid db"
  shows "CANCEL env snap tid db = and_then (checked (cancelled_db env tid db)) (\<lambda>db'. Inr ([tid], db'))"
proof -
  have sch: "schema_ok db" and ai: "attempts_inv (runs db) (attempts db)"
    using inv by (auto simp: db_inv_def)
  obtain r where r: "r \<in> set (runs db)" "r_id r = tid" "r_state r = SPending \<or> r_state r = SRunning"
    using act by (auto simp: active_def)
  have target: "filter (\<lambda>r. r_id r = tid \<and> r_id r \<in> r_id ` set (runs snap)) (runs db) = [r]"
    by (rule CANCEL_target [OF sch r(1,2)]) (use seen in \<open>simp add: seen_def\<close>)
  let ?closes = "\<lambda>a. visible snap a \<and> (\<exists>t \<in> set [r]. r_state t = SRunning \<and>
      r_lease_token t = Some (a_lease_token a) \<and> a_outcome a = None)"
  let ?att = "map a_run_id (filter ?closes (attempts db))"
  let ?cancels = "\<lambda>x. \<exists>t \<in> set [r]. r_id x = r_id t \<and> (r_state t = SPending \<or> r_state t = SRunning) \<and>
      (r_state t = SPending \<or> r_id x \<in> set ?att)"
  have closes: "?closes a \<longleftrightarrow> a_run_id a = tid \<and> open_attempt a" if "a \<in> set (attempts db)" for a
    using CANCEL_closes [OF inv r(1,2) that, of snap] seen that unfolding seen_def by blast
  have "tid \<in> set ?att" if run: "r_state r = SRunning"
  proof -
    obtain a where a: "a \<in> set (attempts db)" "open_attempt a" "mirrors r a"
      using attempts_invD(1) [OF ai r(1) run] by blast
    then have tid: "a_run_id a = tid" using r(2) by (simp add: mirrors_def)
    then have "?closes a" using closes [OF a(1)] a(2) by blast
    then show ?thesis using a(1) tid by force
  qed
  then have cancels: "?cancels = (\<lambda>x. r_id x = tid)"
    using r(2,3) by (intro ext) auto
  have "update_where ?closes g (attempts db) =
      update_where (\<lambda>a. a_run_id a = tid \<and> open_attempt a) g (attempts db)" for g
    using closes by (intro update_where_cong) blast+
  then show ?thesis
    unfolding CANCEL_def Let_def target cancels cancelled_db_def
    using filter_by_id [OF sch r(1)] by (simp add: r(2))
qed

text \<open>A terminal or missing task, and one whose current attempt the statement cannot see, is left alone.\<close>

lemma CANCEL_nothing:
  assumes sch: "schema_ok db"
    and none: "\<And>t. t \<in> set (runs db) \<Longrightarrow> r_id t = tid \<Longrightarrow> tid \<in> r_id ` set (runs snap) \<Longrightarrow>
      r_state t \<noteq> SPending \<and> (r_state t = SRunning \<longrightarrow>
        (\<forall>a \<in> set (attempts db). visible snap a \<longrightarrow> r_lease_token t = Some (a_lease_token a) \<longrightarrow> a_outcome a \<noteq> None))"
  shows "CANCEL env snap tid db = Inr ([], db)"
proof -
  let ?target = "filter (\<lambda>r. r_id r = tid \<and> r_id r \<in> r_id ` set (runs snap)) (runs db)"
  let ?closes = "\<lambda>a. visible snap a \<and> (\<exists>t \<in> set ?target. r_state t = SRunning \<and>
      r_lease_token t = Some (a_lease_token a) \<and> a_outcome a = None)"
  have closes: "\<forall>a \<in> set (attempts db). \<not> ?closes a" using none by fastforce
  then have att: "filter ?closes (attempts db) = []" by (simp add: filter_empty_conv)
  have idle: "r_state t \<noteq> SPending" if "t \<in> set ?target" for t using none that by force
  let ?cancels = "\<lambda>r. \<exists>t \<in> set ?target. r_id r = r_id t \<and> (r_state t = SPending \<or> r_state t = SRunning) \<and>
      (r_state t = SPending \<or> r_id r \<in> set (map a_run_id (filter ?closes (attempts db))))"
  have cancels: "\<not> ?cancels r" for r unfolding att using idle by auto
  have upd: "update_where ?closes g (attempts db) = attempts db" "update_where ?cancels f (runs db) = runs db" for f g
    using closes cancels by (intro update_where_none; blast)+
  have none: "filter ?cancels (runs db) = []" unfolding filter_empty_conv using cancels by blast
  show ?thesis unfolding CANCEL_def Let_def upd none using sch by simp
qed

lemma CANCEL_inactive:
  assumes inv: "db_inv db" and idle: "\<not> active tid db \<or> \<not> seen snap tid db"
  shows "CANCEL env snap tid db = Inr ([], db)"
proof (rule CANCEL_nothing)
  show sch: "schema_ok db" using inv by (simp add: db_inv_def)
  fix t assume t: "t \<in> set (runs db)" "r_id t = tid" "tid \<in> r_id ` set (runs snap)"
  show "r_state t \<noteq> SPending \<and> (r_state t = SRunning \<longrightarrow>
      (\<forall>a \<in> set (attempts db). visible snap a \<longrightarrow> r_lease_token t = Some (a_lease_token a) \<longrightarrow> a_outcome a \<noteq> None))"
  proof (cases "active tid db")
    case True
    then obtain b where b: "b \<in> set (attempts db)" "a_run_id b = tid" "open_attempt b" "\<not> visible snap b"
      using idle t(3) by (auto simp: seen_def)
    then have run: "r_state t = SRunning" "r_lease_token t = Some (a_lease_token b)"
      using open_attempts_of_task [OF inv t(1) b(1)] t(2) by simp_all
    then show ?thesis
      using b distinct_key_eq [OF tokens_distinct [OF sch], of b] by (auto simp: run)
  qed (use t in \<open>auto simp: active_def\<close>)
qed

lemma cancelled_db_attempts_inv:
  assumes "db_inv db"
  shows "attempts_inv (runs (cancelled_db env tid db)) (attempts (cancelled_db env tid db))"
proof -
  have "attempts_inv (update_where (\<lambda>r. r_id r \<in> {tid}) (cancel_update env) (runs db))
      (update_where (\<lambda>a. a_run_id a \<in> {tid} \<and> open_attempt a)
        (close_attempt env ACancelled None) (attempts db))"
    using assms by (intro attempts_inv_close) (auto simp: db_inv_def)
  then show ?thesis by (simp add: cancelled_db_def)
qed

lemma cancel_update_ok:
  assumes "schema_ok db" "r \<in> set (runs db)" "env_ok env"
  shows "run_types (cancel_update env r) \<and> run_checks (cancel_update env r)"
  using schema_run [OF assms(1,2)] assms(3)
  by (auto simp: cancel_update_def run_types_def run_checks_def attempts_check_def state_check_def no_lease_def)

lemma cancelled_db_schema:
  assumes "schema_ok db" "env_ok env"
  shows "schema_ok (cancelled_db env tid db)"
proof -
  let ?db1 = "db\<lparr>runs := update_where (\<lambda>r. r_id r = tid) (cancel_update env) (runs db)\<rparr>"
  have db1: "schema_ok ?db1"
    using cancel_update_ok [OF assms(1) _ assms(2)] by (intro schema_update_runs assms(1)) simp_all
  then have "schema_ok (?db1\<lparr>attempts := update_where (\<lambda>a. a_run_id a = tid \<and> open_attempt a)
      (close_attempt env ACancelled None) (attempts ?db1)\<rparr>)"
    using close_attempt_ok [OF db1 _ assms(2)] by (intro schema_update_attempts) simp_all
  then show ?thesis by (simp add: cancelled_db_def)
qed

lemma cancel_cases:
  assumes inv: "db_inv db"
  obtains (Err) e where "cancel env snap others tid db = (Inl e, db)" "active tid db"
  | (Done) "cancel env snap others tid db = (Inr Cancelled, cancelled_db env tid db)"
      "active tid db" "seen snap tid db" "schema_ok (cancelled_db env tid db)"
  | (Idle) "\<not> active tid db \<or> \<not> seen snap tid db" "cancel env snap others tid db =
      (Inr (if \<exists>r \<in> set (runs (others db)). r_id r = tid then CanAlreadyTerminal else CanNotFound), others db)"
proof (cases "active tid db \<and> seen snap tid db")
  case True
  then have CANCEL: "CANCEL env snap tid db = and_then (checked (cancelled_db env tid db)) (\<lambda>db'. Inr ([tid], db'))"
    using CANCEL_active [OF inv] by blast
  show thesis
    by (cases rule: checked_cases [of "cancelled_db env tid db"])
      (use True Err Done in \<open>auto simp: cancel_def CANCEL transaction_def\<close>)
next
  case False
  then show thesis
    using Idle by (simp add: cancel_def CANCEL_inactive [OF inv] transaction_def Let_def)
qed

lemma cancel_inv:
  assumes "db_inv db" "db_inv (others db)"
  shows "db_inv (snd (cancel env snap others tid db))"
  using assms cancelled_db_attempts_inv [OF assms(1), of env tid]
  by (cases rule: cancel_cases [OF assms(1), of env snap others tid]) (auto simp: db_inv_def)

lemma cancel_succeeds:
  assumes inv: "db_inv db" and env: "env_ok env" and act: "active tid db" "seen snap tid db"
  shows "cancel env snap others tid db = (Inr Cancelled, cancelled_db env tid db)"
proof -
  have "schema_ok db" using inv by (simp add: db_inv_def)
  then show ?thesis
    using cancelled_db_schema [OF _ env, of db tid]
    by (simp add: cancel_def CANCEL_active [OF inv act] transaction_def)
qed

section \<open>Properties of retention\<close>

definition pruned_db :: "env \<Rightarrow> timestamp \<Rightarrow> nat \<Rightarrow> 'v db \<Rightarrow> 'v db" where
  "pruned_db env before n db =
     (let ids = r_id ` set (doomed env before n db)
      in db\<lparr>runs := filter (\<lambda>r. r_id r \<notin> ids) (runs db),
            attempts := filter (\<lambda>a. a_run_id a \<notin> ids) (attempts db)\<rparr>)"

lemma doomedD:
  assumes "r \<in> set (doomed env before n db)"
  shows "r \<in> set (runs db)" "prunable before r" "\<not> env_run_locked env (r_id r)"
proof -
  have "r \<in> {r \<in> set (runs db). prunable before r \<and> \<not> env_run_locked env (r_id r)}"
    using assms unfolding doomed_def by (rule subsetD [OF set_select_ordered])
  then show "r \<in> set (runs db)" "prunable before r" "\<not> env_run_locked env (r_id r)" by auto
qed

lemma doomed_by_id:
  assumes "schema_ok db" "r \<in> set (runs db)"
  shows "r_id r \<in> r_id ` set (doomed env before n db) \<longleftrightarrow> r \<in> set (doomed env before n db)"
  using assms by (auto dest: doomedD(1) run_eqI)

lemma doomed_count:
  assumes "schema_ok db"
  shows "length (filter (\<lambda>r. r_id r \<in> r_id ` set (doomed env before n db)) (runs db)) = length (doomed env before n db)"
proof -
  let ?D = "doomed env before n db"
  have "{r \<in> set (runs db). r_id r \<in> r_id ` set ?D} = set ?D"
    using doomed_by_id [OF assms] doomedD(1) by blast
  moreover have "distinct (filter (\<lambda>r. r_id r \<in> r_id ` set ?D) (runs db))" "distinct ?D"
    using runs_distinct [OF assms] distinct_key_select_ordered [OF runs_distinct [OF assms]]
    by (auto simp: distinct_map doomed_def)
  ultimately show ?thesis by (metis distinct_card set_filter)
qed

lemma pruned_db_inv:
  assumes inv: "db_inv db"
  shows "db_inv (pruned_db env before n db)"
proof -
  have sch: "schema_ok db" and ai: "attempts_inv (runs db) (attempts db)"
    using inv by (auto simp: db_inv_def)
  have "r_state r \<noteq> SRunning" if "r \<in> set (runs db)" "r_id r \<in> r_id ` set (doomed env before n db)" for r
    using doomedD(2) [of r env before n db] doomed_by_id [OF sch that(1)] that(2)
    by (auto simp: prunable_def)
  then show ?thesis
    using attempts_inv_delete [OF ai] schema_delete_runs [OF sch]
    by (simp add: db_inv_def pruned_db_def Let_def)
qed

text \<open>
  Pruning of a sound database fails only on a cut-off that PostgreSQL refuses: deletion cannot violate a
  constraint.
\<close>

lemma prune_terminal_eq:
  assumes inv: "db_inv db" and limit: "uint limit \<le> i64_max"
  shows "prune_terminal env before limit db =
    (if pg_timestamp before
     then (Inr (length (doomed env before (unat limit) db)), pruned_db env before (unat limit) db)
     else (Inl value_error, db))"
proof -
  let ?D = "doomed env before (unat limit) db"
  have sch: "schema_ok db" using inv by (simp add: db_inv_def)
  have "schema_ok (pruned_db env before (unat limit) db)"
    using pruned_db_inv [OF inv] by (simp add: db_inv_def)
  moreover note doomed_count [OF sch]
  ultimately show ?thesis
    using limit
    by (simp add: prune_terminal_def i64_try_from_usize_def PRUNE_def pruned_db_def Let_def transaction_def
        bind_timestamp_def)
qed

lemma prune_terminal_inv:
  assumes "db_inv db"
  shows "db_inv (snd (prune_terminal env before limit db))"
proof (cases "uint limit \<le> i64_max")
  case True
  then show ?thesis using assms prune_terminal_eq [OF assms] pruned_db_inv [OF assms] by simp
next
  case False
  then show ?thesis using assms by (simp add: prune_terminal_def i64_try_from_usize_def)
qed

section \<open>The queue's operations are safe\<close>

interpretation enqueue_op: safe_operation "\<lambda>db. snd (enqueue env to_value notify NAME args opts db)"
  for env and to_value :: "'a \<Rightarrow> rust_string + 'v" and notify NAME args opts
proof
  fix db :: "'v db" assume inv: "db_inv db"
  then show "db_inv (snd (enqueue env to_value notify NAME args opts db))" by (rule enqueue_inv)
  have sch: "schema_ok db" using inv by (simp add: db_inv_def)
  then show "safe_effect db (snd (enqueue env to_value notify NAME args opts db))"
    by (cases rule: enqueue_cases [of db env to_value notify NAME args opts])
      (simp_all add: safe_effect_refl [OF sch] safe_effect_insert)
qed

lemma cancelled_db_effect:
  assumes inv: "db_inv db" and act: "active tid db"
  shows "safe_effect db (cancelled_db env tid db)"
proof -
  have sch: "schema_ok db" using inv by (simp add: db_inv_def)
  show ?thesis
  proof (rule safe_effect_update [OF sch])
    fix r assume r: "r \<in> set (runs db)" "r_id r = tid"
    have "r_state r = SPending \<or> r_state r = SRunning \<and> r_lease_token r \<noteq> None"
    proof -
      obtain x where x: "x \<in> set (runs db)" "r_id x = tid" "r_state x = SPending \<or> r_state x = SRunning"
        using act by (auto simp: active_def)
      have "x = r" using x(2) r(2) by (intro run_eqI [OF sch x(1) r(1)]) simp
      then show ?thesis
        using x(3) schema_run [OF sch r(1)] by (auto simp: run_checks_def state_check_def)
    qed
    then have "task_step (row_view r) (row_view (cancel_update env r))"
      by (auto simp: cancel_update_def task_step.finish task_step.cancel)
    then show "r_id (cancel_update env r) = r_id r \<and>
        task_step\<^sup>=\<^sup>= (row_view r) (row_view (cancel_update env r)) \<and>
        description (cancel_update env r) = description r"
      by (simp add: cancel_update_def description_def)
  qed (auto simp: cancelled_db_def set_update_where)
qed

interpretation cancel_op: safe_operation "\<lambda>db. snd (cancel env snap id tid db)"
  for env snap tid
proof
  fix db :: "'a db" assume inv: "db_inv db"
  then show "db_inv (snd (cancel env snap id tid db))" by (intro cancel_inv) simp_all
  have "schema_ok db" using inv by (simp add: db_inv_def)
  with inv show "safe_effect db (snd (cancel env snap id tid db))"
    by (cases rule: cancel_cases [of db env snap id tid])
      (simp_all add: cancelled_db_effect [OF inv] safe_effect_refl)
qed

interpretation prune_op: safe_operation "\<lambda>db. snd (prune_terminal env before limit db)"
  for env before limit
proof
  fix db :: "'v db" assume inv: "db_inv db"
  then show "db_inv (snd (prune_terminal env before limit db))" by (rule prune_terminal_inv)
  have sch: "schema_ok db" using inv by (simp add: db_inv_def)
  show "safe_effect db (snd (prune_terminal env before limit db))"
  proof (cases "uint limit \<le> i64_max")
    case True
    have "terminal_state (r_state r)"
      if r: "r \<in> set (runs db)" "r_id r \<in> r_id ` set (doomed env before (unat limit) db)" for r
      using doomedD(2) [of r env before "unat limit" db] doomed_by_id [OF sch r(1)] r(2)
      by (auto simp: prunable_def)
    then show ?thesis
      using safe_effect_delete [OF sch] safe_effect_refl [OF sch]
      by (simp add: prune_terminal_eq [OF inv True] pruned_db_def Let_def)
  next
    case False
    then show ?thesis by (simp add: prune_terminal_def i64_try_from_usize_def safe_effect_refl sch)
  qed
qed

section \<open>Properties\<close>

lemma JobName_try_from_valid: "identifier_ok NAME \<Longrightarrow> JobName_try_from NAME = Inr (JobName NAME)"
  using validate_identifier_ok [of NAME] by (simp add: JobName_try_from_def)

lemma enqueue_new:
  assumes "schema_ok db" "options_inv o'" "identifier_ok NAME" "enqueue_texts_ok NAME o'" "to_value args = Inr v" "env_ok env"
    and "pg_timestamp (options_time env o')" "RunId (env_new_uuid env) \<notin> r_id ` set (runs db)"
    and "\<forall>k. options_key o' = Some k \<longrightarrow>
      (\<forall>r \<in> set (runs db). \<not> (r_job_name r = JobName NAME \<and> r_deduplication_key r = Some k))"
  shows "schema_ok (db\<lparr>runs := runs db @ [options_row env (JobName NAME) v o']\<rparr>)"
    and "enqueue env to_value notify NAME args o' db =
      (map_ok (\<lambda>_. \<lparr>task_id = RunId (env_new_uuid env)\<rparr>) notify,
       db\<lparr>runs := runs db @ [options_row env (JobName NAME) v o']\<rparr>)"
proof -
  let ?new = "options_row env (JobName NAME) v o'"
  have ok: "run_types ?new" "run_checks ?new"
    using options_row_ok [OF assms(2) _ assms(6,7), of "JobName NAME" v] assms(3,4) by simp_all
  have key: "options_key o' = None \<or>
      (\<forall>r \<in> set (runs db). \<not> (r_job_name r = JobName NAME \<and> r_deduplication_key r = options_key o'))"
    using assms(9) by (cases "options_key o'") auto
  show sch: "schema_ok (db\<lparr>runs := runs db @ [?new]\<rparr>)"
  proof (rule schema_insert_run [OF assms(1) ok])
    show "dedup_key_of ?new \<notin> dedup_key_of ` set (runs db)" if "r_deduplication_key ?new \<noteq> None"
      using key that by (auto simp: dedup_key_of_def)
  qed (use assms(8) in simp_all)
  show "enqueue env to_value notify NAME args o' db =
      (map_ok (\<lambda>_. \<lparr>task_id = RunId (env_new_uuid env)\<rparr>) notify, db\<lparr>runs := runs db @ [?new]\<rparr>)"
    using JobName_try_from_valid [OF assms(3)] assms(5) ok sch
    by (simp add: enqueue_unfold ENQUEUE_insert [OF key] transaction_def options_row_def [symmetric])
qed

lemma enqueue_found:
  assumes "schema_ok db" "options_inv o'" "identifier_ok NAME" "enqueue_texts_ok NAME o'" "to_value args = Inr v" "env_ok env"
    and "pg_timestamp (options_time env o')" "options_key o' = Some k"
    and "r \<in> set (runs db)" "r_job_name r = JobName NAME" "r_deduplication_key r = Some k"
  shows "enqueue env to_value notify NAME args o' db = (map_ok (\<lambda>_. \<lparr>task_id = r_id r\<rparr>) notify, db)"
proof -
  let ?new = "options_row env (JobName NAME) v o'"
  have ok: "run_types ?new" "run_checks ?new"
    using options_row_ok [OF assms(2) _ assms(6,7), of "JobName NAME" v] assms(3,4) by simp_all
  show ?thesis
    using JobName_try_from_valid [OF assms(3)] assms(5,8) ok ENQUEUE_conflict [OF assms(1,9-11)]
    by (simp add: enqueue_unfold transaction_def options_row_def)
qed

text \<open>
  C21: a validated enqueue is accepted. With a name and key that PostgreSQL can store, a serializable payload,
  an availability in the range of \<open>timestamptz\<close>, a fresh key and no task under the same deduplication key, \<open>enqueue\<close> returns the new
  task's id; the task is pending with no attempts used, with the given name, payload, priority and
  availability; all other tasks are as they were and the invariant holds.
\<close>

theorem enqueue_accepts:
  assumes "db_inv db" "options_inv o'" "identifier_ok NAME" "enqueue_texts_ok NAME o'" "to_value args = Inr v" "env_ok env"
    and "pg_timestamp (options_time env o')" "RunId (env_new_uuid env) \<notin> r_id ` set (runs db)"
    and "\<forall>k. options_key o' = Some k \<longrightarrow>
      (\<forall>r \<in> set (runs db). \<not> (r_job_name r = JobName NAME \<and> r_deduplication_key r = Some k))"
  shows "\<exists>r db'. enqueue env to_value (Inr ()) NAME args o' db = (Inr \<lparr>task_id = r_id r\<rparr>, db') \<and>
    db_inv db' \<and> set (runs db') = insert r (set (runs db)) \<and> r \<notin> set (runs db) \<and>
    row_view r = TPending 0 (MaxAttempts_to_i32 (max_attempts o')) \<and> r_job_name r = JobName NAME \<and>
    r_job_args r = v \<and> r_available_at r = options_time env o' \<and> r_priority r = Priority_get (priority o')"
proof -
  let ?r = "options_row env (JobName NAME) v o'"
  let ?db = "db\<lparr>runs := runs db @ [?r]\<rparr>"
  have sch: "schema_ok db" using assms(1) by (simp add: db_inv_def)
  note new = enqueue_new [where to_value = to_value and args = args, OF sch assms(2-9)]
  have run: "enqueue env to_value (Inr ()) NAME args o' db = (Inr \<lparr>task_id = r_id ?r\<rparr>, ?db)"
    using new(2) [of "Inr ()"] by simp
  have inv: "db_inv ?db" using db_inv_insert [OF assms(1) new(1)] by simp
  have "?r \<notin> set (runs db)" using assms(8) by force
  then show ?thesis
    using run inv
    by (intro exI [of _ ?r] exI [of _ ?db])
      (simp add: options_row_def enqueued_row_def Let_def options_time_def split: Availability.splits)
qed

theorem enqueue_accepts_witness:
  "\<exists>t db'. enqueue (sample_env 200) Inr (Inr ()) (JobName_as_str sample_name) 42 immediate sample_db =
     (Inr t, db') \<and> db_inv db'"
proof -
  have o: "options_inv immediate" "pg_timestamp (options_time (sample_env 200) immediate)"
    "options_key immediate = None"
    by (simp_all add: options_inv_def immediate_def EnqueueOptions_default_def LeaseDuration_inv_def
        LeaseDuration_default_value_def MaxAttempts_inv_def MaxAttempts_default_value_def RetryBackoff_inv_def
        RetryBackoff_default_def int_range_defs options_time_def pg_timestamp_def options_key_def)
  have n: "identifier_ok (JobName_as_str sample_name)"
    by (simp add: identifier_ok_def MAX_IDENTIFIER_LEN_def is_whitespace_def sample_name_def)
  have w: "enqueue_texts_ok (JobName_as_str sample_name) immediate" by (simp add: enqueue_texts_ok_def o(3))
  have f: "RunId (env_new_uuid (sample_env 200)) \<notin> r_id ` set (runs sample_db)"
    by (simp add: sample_db_def sample_rows)
  show ?thesis
    using enqueue_accepts [where to_value = Inr and args = 42 and v = 42, OF sample_inv o(1) n w refl
        sample_200 o(2) f] o(3) by auto
qed

text \<open>
  Deduplication: when a task of the same name carries the same deduplication key, in whatever
  state it is, a validated \<open>enqueue\<close> returns that task's id and changes nothing.
\<close>

lemma enqueue_deduplicates:
  assumes "db_inv db" "options_inv o'" "identifier_ok NAME" "enqueue_texts_ok NAME o'" "to_value args = Inr v" "env_ok env"
    and "pg_timestamp (options_time env o')" "options_key o' = Some k"
    and "r \<in> set (runs db)" "r_job_name r = JobName NAME" "r_deduplication_key r = Some k"
  shows "enqueue env to_value (Inr ()) NAME args o' db = (Inr \<lparr>task_id = r_id r\<rparr>, db)"
  using enqueue_found [where to_value = to_value and args = args and notify = "Inr ()", OF _ assms(2-11)] assms(1)
  by (simp add: db_inv_def)

definition sample_options :: EnqueueOptions where
  "sample_options = deduplicate (DeduplicationKey (lit ''k'')) immediate"

definition sample_key :: DeduplicationKey where
  "sample_key = DeduplicationKey (lit ''k'')"

lemma sample_key_options:
  "options_inv sample_options" "options_key sample_options = Some sample_key"
  "pg_timestamp (options_time (sample_env 200) sample_options)"
  "identifier_ok (JobName_as_str sample_name)" "enqueue_texts_ok (JobName_as_str sample_name) sample_options"
  by (simp_all add: enqueue_texts_ok_def sample_options_def options_inv_def deduplicate_def immediate_def EnqueueOptions_default_def
      LeaseDuration_inv_def LeaseDuration_default_value_def MaxAttempts_inv_def MaxAttempts_default_value_def
      RetryBackoff_inv_def RetryBackoff_default_def int_range_defs identifier_ok_def MAX_IDENTIFIER_LEN_def
      is_whitespace_def options_time_def options_key_def sample_name_def sample_key_def pg_timestamp_def)

lemma sample_keyed:
  "sample_pending \<in> set (runs sample_db)" "r_id sample_pending = RunId 1"
  "r_job_name sample_pending = JobName (JobName_as_str sample_name)"
  "r_deduplication_key sample_pending = Some sample_key"
  by (simp_all add: sample_db_def sample_pending_def sample_task_def sample_name_def sample_key_def)

text \<open>
  C22: enqueueing under a deduplication key is idempotent: after one accepted call, a second validated
  call for the same task name and key, with any payload, time and other options, returns the same id
  and leaves the database unchanged.
\<close>

theorem enqueue_idempotent:
  assumes "db_inv db" "enqueue e1 f1 n1 NAME a1 o1 db = (Inr t, db')" "options_key o1 = Some k"
    and "options_inv o2" "options_key o2 = Some k" "f2 a2 = Inr v" "env_ok e2"
    and "pg_timestamp (options_time e2 o2)"
  shows "enqueue e2 f2 (Inr ()) NAME a2 o2 db' = (Inr t, db')"
proof -
  have sch: "schema_ok db" using assms(1) by (simp add: db_inv_def)
  have inv: "db_inv db'" using enqueue_inv [OF assms(1), of e1 f1 n1 NAME a1 o1] assms(2) by simp
  have name: "identifier_ok NAME"
    using assms(2) validate_identifier_ok [of NAME]
    by (cases "validate_identifier NAME") (auto simp: enqueue_def JobName_try_from_def)
  have "\<exists>r \<in> set (runs db'). r_job_name r = JobName NAME \<and> r_deduplication_key r = Some k \<and> t = \<lparr>task_id = r_id r\<rparr>"
    using sch
  proof (cases rule: enqueue_cases [of db e1 f1 n1 NAME a1 o1])
    case (Err e)
    then show ?thesis using assms(2) by simp
  next
    case (Found r k')
    then show ?thesis
      using assms(2,3) JobName_try_from_valid [OF name]
      by (intro bexI [of _ r]) (auto simp: eq_commute [of "Inr t"])
  next
    case (New name' v')
    then show ?thesis
      using assms(2,3) JobName_try_from_valid [OF name]
      by (intro bexI [of _ "options_row e1 name' v' o1"]) (auto simp: eq_commute [of "Inr t"])
  qed
  then obtain r where r: "r \<in> set (runs db')" "r_job_name r = JobName NAME" "r_deduplication_key r = Some k"
    "t = \<lparr>task_id = r_id r\<rparr>" by blast
  have sch': "schema_ok db'" using inv by (simp add: db_inv_def)
  then have "enqueue_texts_ok NAME o2"
    using schema_run [OF sch' r(1)] r(2,3) assms(5) by (simp add: enqueue_texts_ok_def run_types_def)
  from enqueue_found [where to_value = f2 and args = a2 and notify = "Inr ()",
      OF sch' assms(4) name this assms(6-8,5) r(1-3)] show ?thesis
    using r(4) by simp
qed

theorem enqueue_idempotent_witness:
  "enqueue (sample_env 200) Inr (Inr ()) (JobName_as_str sample_name) 43 sample_options sample_db =
     (Inr \<lparr>task_id = RunId 1\<rparr>, sample_db)"
proof -
  have "enqueue (sample_env 200) Inr (Inr ()) (JobName_as_str sample_name) 42 sample_options sample_db =
      (Inr \<lparr>task_id = RunId 1\<rparr>, sample_db)"
    using enqueue_found [where to_value = Inr and args = 42 and v = 42 and notify = "Inr ()", OF sample_schema
        sample_key_options(1) sample_key_options(4,5) refl sample_200 sample_key_options(3,2)
        sample_keyed(1,3,4)] sample_keyed(2) by simp
  from enqueue_idempotent [where ?f2.0 = Inr and ?a2.0 = 43 and v = 43, OF sample_inv this sample_key_options(2)
      sample_key_options(1,2) refl sample_200 sample_key_options(3)]
  show ?thesis .
qed

lemma cancelled_row:
  assumes sch: "schema_ok db" and act: "active tid db"
  obtains r where "r \<in> set (runs db)" "r_id r = tid" "cancel_update env r \<in> set (runs (cancelled_db env tid db))"
  using act by (auto simp: active_def cancelled_db_def set_update_where)

text \<open>
  C20: cancellation. With a sane clock, \<open>cancel\<close> answers \<open>Cancelled\<close> exactly when the task is pending or
  running and its statement sees the attempt to close, and then the task is cancelled and its attempt
  closed; otherwise it has itself changed nothing, and answers \<open>NotFound\<close> exactly when there is no such
  task in the state its second statement reads. When nothing commits between the start of the statement
  and its lock, every task that is not terminal is seen.
\<close>

theorem cancel_outcome:
  assumes "db_inv db" "env_ok env"
  shows "case cancel env snap others tid db of (res, db') \<Rightarrow>
    (res = Inr Cancelled \<longleftrightarrow> active tid db \<and> seen snap tid db) \<and>
    (active tid db \<and> snap = db \<longrightarrow> seen snap tid db) \<and>
    (res = Inr Cancelled \<longrightarrow> db_inv db' \<and> view_of db' tid = TDone SCancelled \<and>
       (\<forall>i. i \<noteq> tid \<longrightarrow> view_of db' i = view_of db i) \<and>
       (\<forall>a \<in> set (attempts db'). a_run_id a = tid \<longrightarrow> \<not> open_attempt a)) \<and>
    (res \<noteq> Inr Cancelled \<longrightarrow> db' = others db \<and>
       res = Inr (if view_of (others db) tid = TAbsent then CanNotFound else CanAlreadyTerminal))"
proof (cases "active tid db \<and> seen snap tid db")
  case True
  then have act: "active tid db" "seen snap tid db" by blast+
  have sch: "schema_ok db" using assms(1) by (simp add: db_inv_def)
  let ?db = "cancelled_db env tid db"
  have run: "cancel env snap others tid db = (Inr Cancelled, ?db)" by (rule cancel_succeeds [OF assms act])
  have sch': "schema_ok ?db" by (rule cancelled_db_schema [OF sch assms(2)])
  have inv: "db_inv ?db" using cancelled_db_attempts_inv [OF assms(1)] sch' by (simp add: db_inv_def)
  obtain r where r: "r_id r = tid" "cancel_update env r \<in> set (runs ?db)"
    using cancelled_row [OF sch act(1), of env] by metis
  have view: "view_of ?db tid = TDone SCancelled"
    using view_of_row [OF sch' r(2)] r(1) by (simp add: cancel_update_def)
  have others: "view_of ?db i = view_of db i" if i: "i \<noteq> tid" for i
  proof -
    have "find (\<lambda>r. r_id r = i) (update_where (\<lambda>r. r_id r = tid) (cancel_update env) (runs db)) =
        map_option (\<lambda>r. if r_id r = tid then cancel_update env r else r) (find (\<lambda>r. r_id r = i) (runs db))"
      by (rule find_update_where) simp
    then show ?thesis
      using i by (cases "find (\<lambda>r. r_id r = i) (runs db)")
        (auto simp: view_of_def cancelled_db_def dest: find_key_Some(2))
  qed
  have "\<forall>a \<in> set (attempts ?db). a_run_id a = tid \<longrightarrow> \<not> open_attempt a"
    by (simp add: cancelled_db_def ball_update_where)
  with inv view others act show ?thesis unfolding run prod.case by blast
next
  case False
  then have "cancel env snap others tid db =
      (Inr (if \<exists>r \<in> set (runs (others db)). r_id r = tid then CanAlreadyTerminal else CanNotFound), others db)"
    by (simp add: cancel_def CANCEL_inactive [OF assms(1)] transaction_def Let_def)
  moreover have "(\<exists>r \<in> set (runs (others db)). r_id r = tid) \<longleftrightarrow> view_of (others db) tid \<noteq> TAbsent"
    unfolding view_of_absent by blast
  ultimately show ?thesis using False seen_now [of tid db] by auto
qed

theorem cancel_outcome_witness:
  "(\<exists>db'. cancel (sample_env 200) sample_db id (RunId 2) sample_db = (Inr Cancelled, db') \<and> view_of db' (RunId 2) = TDone SCancelled) \<and>
   cancel (sample_env 200) sample_db id (RunId 3) sample_db = (Inr CanAlreadyTerminal, sample_db) \<and>
   cancel (sample_env 200) sample_db id (RunId 5) sample_db = (Inr CanNotFound, sample_db)"
proof -
  have a: "active (RunId 2) sample_db" "\<not> active (RunId 3) sample_db" "\<not> active (RunId 5) sample_db"
    "view_of sample_db (RunId 3) \<noteq> TAbsent" "view_of sample_db (RunId 5) = TAbsent"
    by (simp_all add: active_def view_of_absent sample_db_def sample_rows)
  show ?thesis
    using cancel_outcome [OF sample_inv sample_200, where snap = sample_db and others = id and tid = "RunId 2"]
      cancel_outcome [OF sample_inv sample_200, where snap = sample_db and others = id and tid = "RunId 3"]
      cancel_outcome [OF sample_inv sample_200, where snap = sample_db and others = id and tid = "RunId 5"] a
    by (auto split: prod.splits)
qed

text \<open>
  The worker of a cancelled task is fenced: after \<open>Cancelled\<close> every completion, failure and
  renewal under any token is refused and changes nothing, whatever other sessions do meanwhile.
\<close>

lemma cancelled_worker_fenced:
  assumes "db_inv db" "cancel env snap others tid db = (Inr Cancelled, db')"
  shows "terminal tid db' \<and>
    repelled (\<lambda>x. x = (if terminal tid (late db') then FinAlreadyTerminal else FinFenced)) db' (late db')
      (finalize_run e late tid tok out db') \<and>
    repelled (\<lambda>x. x = (if terminal tid (late db') then FlAlreadyTerminal else FlFenced)) db' (late db')
      (fail_run e late tid tok err b db') \<and>
    renew_lease e tid tok db' = (Inr RenewFenced, db')"
proof -
  have sch: "schema_ok db" using assms(1) by (simp add: db_inv_def)
  have db': "db' = cancelled_db env tid db" "active tid db" "schema_ok db'"
    using assms by (cases rule: cancel_cases [of db env snap others tid]; auto split: if_splits)+
  obtain r where r: "r_id r = tid" "cancel_update env r \<in> set (runs db')"
    using cancelled_row [OF sch db'(2), of env] db'(1) by metis
  have only: "x = cancel_update env r" if "x \<in> set (runs db')" "r_id x = tid" for x
    using that(2) r(1) by (intro run_eqI [OF db'(3) that(1) r(2)]) simp
  have "\<not> has_live_lease e tid tok db'"
  proof
    assume "has_live_lease e tid tok db'"
    then obtain x where x: "x \<in> set (runs db')" "r_id x = tid" "r_state x = SRunning"
      by (auto simp: has_live_lease_def live_lease_def)
    with only [OF x(1,2)] show False by simp
  qed
  moreover have "terminal tid db'"
    unfolding terminal_def using r by (intro bexI [OF _ r(2)]) (simp add: is_terminal_state_def)
  ultimately show ?thesis using db'(3) by (simp add: repelled_def finalize_run_fenced fail_run_fenced renew_lease_fenced)
qed

text \<open>
  C23: retention. On a sound database, with a cut-off in the range of \<open>timestamptz\<close>, \<open>prune_terminal\<close> does
  not fail; it deletes at most \<open>limit\<close> tasks, all of them terminal and finished before the cut-off, with their attempts, and reports their number;
  pending, running, younger and locked tasks survive with their attempts, and when fewer than \<open>limit\<close>
  were deleted no unlocked candidate is left. A cut-off that chrono can express and PostgreSQL cannot, such as
  \<open>DateTime::MIN_UTC\<close> for "delete nothing", is a database error, and nothing changes.
\<close>

theorem prune_terminal_effect:
  assumes "db_inv db" "uint limit \<le> i64_max"
  shows "if pg_timestamp before
    then \<exists>n db'. prune_terminal env before limit db = (Inr n, db') \<and> db_inv db' \<and> n \<le> unat limit \<and>
    length (runs db) = n + length (runs db') \<and> set (runs db') \<subseteq> set (runs db) \<and>
    (\<forall>r \<in> set (runs db). r \<notin> set (runs db') \<longrightarrow>
       terminal_state (r_state r) \<and> (\<exists>f. r_finished_at r = Some f \<and> f < before) \<and> \<not> env_run_locked env (r_id r)) \<and>
    set (attempts db') = {a \<in> set (attempts db). a_run_id a \<in> r_id ` set (runs db')} \<and>
    (n < unat limit \<longrightarrow> (\<forall>r \<in> set (runs db'). prunable before r \<longrightarrow> env_run_locked env (r_id r)))
    else prune_terminal env before limit db = (Inl (Database (DatabaseError UnknownKind)), db)"
proof (cases "pg_timestamp before")
  case False
  then show ?thesis using prune_terminal_eq [OF assms] by simp
next
  case ok: True
  let ?D = "doomed env before (unat limit) db" and ?db = "pruned_db env before (unat limit) db"
  have sch: "schema_ok db" using assms(1) by (simp add: db_inv_def)
  have keep: "r \<in> set (runs ?db) \<longleftrightarrow> r \<in> set (runs db) \<and> r \<notin> set ?D" for r
    using doomed_by_id [OF sch, of r env before "unat limit"] by (auto simp: pruned_db_def Let_def)
  have n: "length ?D \<le> unat limit" unfolding doomed_def by (rule length_select_ordered)
  have len: "length (runs db) = length ?D + length (runs ?db)"
    using sum_length_filter_compl [of "\<lambda>r. r_id r \<in> r_id ` set ?D" "runs db"] doomed_count [OF sch]
    by (simp add: pruned_db_def Let_def)
  have gone: "terminal_state (r_state r) \<and> (\<exists>f. r_finished_at r = Some f \<and> f < before) \<and> \<not> env_run_locked env (r_id r)"
    if "r \<in> set (runs db)" "r \<notin> set (runs ?db)" for r
  proof -
    have "r \<in> set ?D" using keep [of r] that by blast
    from doomedD(2,3) [OF this] show ?thesis
      by (auto simp: prunable_def terminal_state_def split: option.splits)
  qed
  have att: "set (attempts ?db) = {a \<in> set (attempts db). a_run_id a \<in> r_id ` set (runs ?db)}"
  proof -
    have fk: "\<forall>a \<in> set (attempts db). a_run_id a \<in> r_id ` set (runs db)"
      using sch by (simp add: schema_ok_def attempts_fk_def)
    have "r_id ` set (runs ?db) = r_id ` set (runs db) - r_id ` set ?D"
      by (auto simp: pruned_db_def Let_def)
    then show ?thesis using fk by (auto simp: pruned_db_def Let_def)
  qed
  have left: "env_run_locked env (r_id r)"
    if "length ?D < unat limit" "r \<in> set (runs ?db)" "prunable before r" for r
    using that keep [of r]
      select_ordered_best(1) [of r "runs db" "\<lambda>r. prunable before r \<and> \<not> env_run_locked env (r_id r)"
        prune_rank "unat limit"]
    by (auto simp: doomed_def)
  show ?thesis
    unfolding if_P [OF ok]
  proof (intro exI conjI)
    show "prune_terminal env before limit db = (Inr (length ?D), ?db)" using prune_terminal_eq [OF assms] ok by simp
    show "db_inv ?db" by (rule pruned_db_inv [OF assms(1)])
    show "set (runs ?db) \<subseteq> set (runs db)" using keep by blast
    show "set (attempts ?db) = {a \<in> set (attempts db). a_run_id a \<in> r_id ` set (runs ?db)}" by (rule att)
  qed (use n len gone left in blast)+
qed

theorem prune_terminal_effect_witness:
  "(\<exists>n db'. prune_terminal (sample_env 200) 100 10 sample_db = (Inr n, db') \<and> db_inv db' \<and>
     length (runs sample_db) = n + length (runs db')) \<and>
   chrono_timestamp (- 8335547913600000000) \<and>
   prune_terminal (sample_env 200) (- 8335547913600000000) 10 sample_db =
     (Inl (Database (DatabaseError UnknownKind)), sample_db)"
proof -
  have "uint (10 :: usize) \<le> i64_max" "pg_timestamp 100" by (simp_all add: i64_max_def pg_timestamp_def)
  with prune_terminal_effect [OF sample_inv, of 10 100 "sample_env 200"]
    prune_terminal_effect [OF sample_inv, of 10 "- 8335547913600000000" "sample_env 200"]
  show ?thesis by (auto simp: pg_timestamp_def chrono_timestamp_def)
qed

end
