(* ===== verification/Materialize.thy ===== *)
theory Materialize
  imports Samples
begin

text \<open>
  \<^verbatim>\<open>src/src/store/materialize.rs\<close>: turning due schedules into tasks. Each iteration of the loop is a
  transaction of its own and has its own environment, and between two of them other sessions commit what
  they like (the argument \<open>others\<close>); the loop stops at the first error, when nothing is due, or after
  100 schedules.
\<close>

section \<open>Statements\<close>

record 'v DueJob =
  due_id :: JobId
  due_next_run_at :: timestamp
  due_cron_expression :: rust_string
  due_db_now :: timestamp
  due_name :: JobName
  due_job_args :: 'v
  due_max_attempts :: int
  due_lease_duration :: pg_interval
  due_retry_backoff :: pg_interval

definition due :: "env \<Rightarrow> 'v SchedulerJob \<Rightarrow> bool" where
  "due env j \<longleftrightarrow> j_next_run_at j \<le> env_now env \<and> j_is_paused j = False"

definition due_job :: "env \<Rightarrow> 'v SchedulerJob \<Rightarrow> 'v DueJob" where
  "due_job env j =
     \<lparr>due_id = j_id j, due_next_run_at = j_next_run_at j, due_cron_expression = j_cron_expression j,
      due_db_now = env_now env, due_name = j_name j, due_job_args = j_job_args j,
      due_max_attempts = j_max_attempts j, due_lease_duration = j_lease_duration j,
      due_retry_backoff = j_retry_backoff j\<rparr>"

definition SELECT_DUE :: "env \<Rightarrow> 'v db \<Rightarrow> 'v DueJob list" where
  "SELECT_DUE env db =
     map (due_job env)
       (select_ordered j_next_run_at (\<lambda>j. due env j \<and> \<not> env_job_locked env (j_id j)) 1 (jobs db))"

definition load_due :: "env \<Rightarrow> 'v DueJob \<Rightarrow> SchedulerError + 'v DueJob" where
  "load_due env job =
     decoded (chrono_timestamp (due_next_run_at job) \<and> chrono_timestamp (due_db_now job) \<and>
       env_job_args_read env (due_id job)) job"

definition occurrence_row :: "env \<Rightarrow> 'v DueJob \<Rightarrow> 'v run_row" where
  "occurrence_row env job =
     \<lparr>r_id = RunId (env_new_uuid env), r_job_id = Some (due_id job),
      r_scheduled_for = due_next_run_at job, r_attempt_count = 0,
      r_created_at = env_now env, r_updated_at = env_now env,
      r_job_name = due_name job, r_job_args = due_job_args job,
      r_available_at = due_next_run_at job, r_priority = 0, r_state = SPending,
      r_max_attempts = due_max_attempts job, r_lease_duration = due_lease_duration job,
      r_retry_backoff = due_retry_backoff job, r_worker_id = None, r_lease_token = None,
      r_lease_expires_at = None, r_started_at = None, r_finished_at = None,
      r_last_error = None, r_deduplication_key = None\<rparr>"

definition INSERT_RUN :: "env \<Rightarrow> 'v DueJob \<Rightarrow> 'v db \<Rightarrow> SchedulerError + 'v db" where
  "INSERT_RUN env job db =
     (let new = occurrence_row env job
      in and_then (admit (run_types new) (run_checks new)) (\<lambda>_.
         if \<exists>r \<in> set (runs db). r_job_id r \<noteq> None \<and> occurrence_key r = occurrence_key new
         then Inr db
         else checked (db\<lparr>runs := runs db @ [new]\<rparr>)))"

definition ADVANCE :: "env \<Rightarrow> timestamp \<Rightarrow> JobId \<Rightarrow> 'v db \<Rightarrow> SchedulerError + 'v db" where
  "ADVANCE env nxt jid db =
     checked (db\<lparr>jobs := update_where (\<lambda>j. j_id j = jid)
       (\<lambda>j. j\<lparr>j_next_run_at := nxt, j_updated_at := env_now env\<rparr>) (jobs db)\<rparr>)"

definition PAUSE :: "env \<Rightarrow> JobId \<Rightarrow> 'v db \<Rightarrow> SchedulerError + 'v db" where
  "PAUSE env jid db =
     checked (db\<lparr>jobs := update_where (\<lambda>j. j_id j = jid)
       (\<lambda>j. j\<lparr>j_is_paused := True, j_updated_at := env_now env\<rparr>) (jobs db)\<rparr>)"

section \<open>Operations\<close>

datatype Tick = Processed | Idle

definition materialize_one :: "'c croner \<Rightarrow> env \<Rightarrow> 'v db \<Rightarrow> (SchedulerError + Tick) \<times> 'v db" where
  "materialize_one cr env db =
     transaction db
       (and_then (collect_results (load_due env) (SELECT_DUE env db)) (\<lambda>rows.
        case rows of
          [] \<Rightarrow> Inr (Idle, db)
        | job # _ \<Rightarrow>
            (case CronExpression_parse cr (due_cron_expression job) of
               Inr cron \<Rightarrow>
                 and_then (CronExpression_next_after cr cron (due_db_now job)) (\<lambda>nxt.
                 and_then (INSERT_RUN env job db) (\<lambda>db1.
                 and_then (ADVANCE env nxt (due_id job) db1) (\<lambda>db2.
                 Inr (Processed, db2))))
             | Inl e \<Rightarrow>
                 and_then (PAUSE env (due_id job) db) (\<lambda>db1.
                 Inr (Processed, db1)))))"

function materialize_loop ::
    "'c croner \<Rightarrow> (nat \<Rightarrow> env) \<Rightarrow> (nat \<Rightarrow> 'v db \<Rightarrow> 'v db) \<Rightarrow> nat \<Rightarrow> 'v db \<Rightarrow> (SchedulerError + nat) \<times> 'v db" where
  "materialize_loop cr envs others n db =
     (if n < 100
      then (case materialize_one cr (envs n) db of
              (Inl e, db') \<Rightarrow> (Inl e, db')
            | (Inr Idle, db') \<Rightarrow> (Inr n, db')
            | (Inr Processed, db') \<Rightarrow> materialize_loop cr envs others (n + 1) (others n db'))
      else (Inr n, db))"
  by pat_completeness auto

termination
  by (relation "measure (\<lambda>(cr, envs, others, n, db). 100 - n)") auto

declare materialize_loop.simps [simp del]

definition materialize_due_jobs ::
    "'c croner \<Rightarrow> (nat \<Rightarrow> env) \<Rightarrow> (nat \<Rightarrow> 'v db \<Rightarrow> 'v db) \<Rightarrow> 'v db \<Rightarrow> (SchedulerError + nat) \<times> 'v db" where
  "materialize_due_jobs cr envs others db = materialize_loop cr envs others 0 db"

section \<open>One schedule\<close>

definition due_jobs :: "env \<Rightarrow> 'v db \<Rightarrow> 'v SchedulerJob list" where
  "due_jobs env db = filter (\<lambda>j. due env j \<and> \<not> env_job_locked env (j_id j)) (jobs db)"

lemma due_job_sel [simp]:
  "due_id (due_job env j) = j_id j" "due_next_run_at (due_job env j) = j_next_run_at j"
  "due_cron_expression (due_job env j) = j_cron_expression j" "due_db_now (due_job env j) = env_now env"
  by (simp_all add: due_job_def)

text \<open>Whether the client can read a due schedule, and the clock that comes with it.\<close>

definition due_readable :: "env \<Rightarrow> 'v SchedulerJob \<Rightarrow> bool" where
  "due_readable env j \<longleftrightarrow>
     chrono_timestamp (j_next_run_at j) \<and> chrono_timestamp (env_now env) \<and> env_job_args_read env (j_id j)"

lemma load_due_job: "load_due env (due_job env j) = decoded (due_readable env j) (due_job env j)"
  by (simp add: load_due_def due_job_def due_readable_def)

lemma SELECT_DUE_cases:
  obtains (none) "SELECT_DUE env db = []" "due_jobs env db = []"
  | (some) j where "SELECT_DUE env db = [due_job env j]" "j \<in> set (due_jobs env db)"
      "\<forall>i \<in> set (due_jobs env db). j_next_run_at j \<le> j_next_run_at i"
proof (cases "select_ordered j_next_run_at (\<lambda>j. due env j \<and> \<not> env_job_locked env (j_id j)) 1 (jobs db)")
  case Nil
  then have "\<forall>j \<in> set (jobs db). \<not> (due env j \<and> \<not> env_job_locked env (j_id j))"
    by (subst (asm) select_ordered_eq_Nil) simp_all
  then show thesis using none Nil by (auto simp: SELECT_DUE_def due_jobs_def filter_empty_conv)
next
  case (Cons j js)
  let ?p = "\<lambda>j. due env j \<and> \<not> env_job_locked env (j_id j)"
  let ?s = "select_ordered j_next_run_at ?p 1 (jobs db)"
  have "length ?s \<le> 1" by (rule length_select_ordered)
  then have s: "?s = [j]" using Cons by (simp del: length_select_ordered)
  then have j: "j \<in> set (due_jobs env db)"
    using select_orderedD [of j j_next_run_at ?p 1 "jobs db"] by (simp add: due_jobs_def)
  have "j_next_run_at j \<le> j_next_run_at i" if i: "i \<in> set (due_jobs env db)" for i
  proof (cases "i = j")
    case False
    then show ?thesis
      using i s select_ordered_best(2) [of i "jobs db" ?p j_next_run_at 1 j] by (simp add: due_jobs_def)
  qed simp
  with s j show thesis using some by (simp add: SELECT_DUE_def)
qed

lemma occurrence_row_ok:
  assumes "schema_ok db" "j \<in> set (jobs db)" "env_ok env"
  shows "run_types (occurrence_row env (due_job env j))" "run_checks (occurrence_row env (due_job env j))"
  using schema_job [OF assms(1,2)] assms(3)
  by (auto simp: occurrence_row_def due_job_def run_types_def run_checks_def job_types_def job_checks_def
      attempts_check_def state_check_def no_lease_def int_range_defs)

lemma occurrence_row_sel [simp]:
  "r_id (occurrence_row env job) = RunId (env_new_uuid env)"
  "r_job_id (occurrence_row env job) = Some (due_id job)"
  "r_scheduled_for (occurrence_row env job) = due_next_run_at job"
  "r_state (occurrence_row env job) = SPending"
  "r_attempt_count (occurrence_row env job) = 0"
  "r_deduplication_key (occurrence_row env job) = None"
  by (simp_all add: occurrence_row_def)

text \<open>The occurrence of a due schedule is inserted unless it is already there.\<close>

definition has_occurrence :: "JobId \<Rightarrow> timestamp \<Rightarrow> 'v db \<Rightarrow> bool" where
  "has_occurrence jid t db \<longleftrightarrow> (\<exists>r \<in> set (runs db). r_job_id r = Some jid \<and> r_scheduled_for r = t)"

definition occurrence_db :: "env \<Rightarrow> 'v SchedulerJob \<Rightarrow> 'v db \<Rightarrow> 'v db" where
  "occurrence_db env j db =
     (if has_occurrence (j_id j) (j_next_run_at j) db then db
      else db\<lparr>runs := runs db @ [occurrence_row env (due_job env j)]\<rparr>)"

definition advanced_jobs :: "env \<Rightarrow> timestamp \<Rightarrow> JobId \<Rightarrow> 'v SchedulerJob list \<Rightarrow> 'v SchedulerJob list" where
  "advanced_jobs env nxt jid js =
     update_where (\<lambda>j. j_id j = jid) (\<lambda>j. j\<lparr>j_next_run_at := nxt, j_updated_at := env_now env\<rparr>) js"

definition paused_jobs :: "env \<Rightarrow> JobId \<Rightarrow> 'v SchedulerJob list \<Rightarrow> 'v SchedulerJob list" where
  "paused_jobs env jid js =
     update_where (\<lambda>j. j_id j = jid) (\<lambda>j. j\<lparr>j_is_paused := True, j_updated_at := env_now env\<rparr>) js"

lemma INSERT_RUN_eq:
  "INSERT_RUN env (due_job env j) db =
     and_then (admit (run_types (occurrence_row env (due_job env j)))
       (run_checks (occurrence_row env (due_job env j)))) (\<lambda>_.
     if has_occurrence (j_id j) (j_next_run_at j) db then Inr db else checked (occurrence_db env j db))"
proof -
  have "(\<exists>r \<in> set (runs db). r_job_id r \<noteq> None \<and>
      occurrence_key r = occurrence_key (occurrence_row env (due_job env j))) \<longleftrightarrow>
    has_occurrence (j_id j) (j_next_run_at j) db"
    by (auto simp: has_occurrence_def occurrence_key_def)
  then show ?thesis by (simp add: INSERT_RUN_def Let_def occurrence_db_def)
qed

lemma materialize_one_unreadable:
  assumes "SELECT_DUE env db = [due_job env j]" "\<not> due_readable env j"
  shows "materialize_one cr env db = (Inl decode_error, db)"
  using assms by (simp add: materialize_one_def transaction_def load_due_job)

text \<open>What one transaction does to the schedule it selected, when the client can read it.\<close>

lemma materialize_one_selected:
  assumes "SELECT_DUE env db = [due_job env j]" "due_readable env j"
  shows "materialize_one cr env db = transaction db
    (case CronExpression_parse cr (j_cron_expression j) of
       Inr cron \<Rightarrow>
         and_then (CronExpression_next_after cr cron (env_now env)) (\<lambda>nxt.
         and_then (INSERT_RUN env (due_job env j) db) (\<lambda>db1.
         and_then (ADVANCE env nxt (j_id j) db1) (\<lambda>db2.
         Inr (Processed, db2))))
     | Inl e \<Rightarrow> and_then (PAUSE env (j_id j) db) (\<lambda>db1. Inr (Processed, db1)))"
  using assms by (simp add: materialize_one_def load_due_job cong: sum.case_cong)

lemma materialize_one_cases:
  assumes sch: "schema_ok db"
  obtains (Idle) "materialize_one cr env db = (Inr Idle, db)" "due_jobs env db = []"
  | (Err) e where "materialize_one cr env db = (Inl e, db)"
  | (Paused) j e where "j \<in> set (due_jobs env db)"
      "CronExpression_parse cr (j_cron_expression j) = Inl e"
      "materialize_one cr env db = (Inr Processed, db\<lparr>jobs := paused_jobs env (j_id j) (jobs db)\<rparr>)"
      "schema_ok (db\<lparr>jobs := paused_jobs env (j_id j) (jobs db)\<rparr>)"
  | (Run) j cron nxt where "j \<in> set (due_jobs env db)"
      "\<forall>i \<in> set (due_jobs env db). j_next_run_at j \<le> j_next_run_at i"
      "CronExpression_parse cr (j_cron_expression j) = Inr cron"
      "CronExpression_next_after cr cron (env_now env) = Inr nxt"
      "materialize_one cr env db =
        (Inr Processed, (occurrence_db env j db)\<lparr>jobs := advanced_jobs env nxt (j_id j) (jobs db)\<rparr>)"
      "schema_ok (occurrence_db env j db)"
      "schema_ok ((occurrence_db env j db)\<lparr>jobs := advanced_jobs env nxt (j_id j) (jobs db)\<rparr>)"
proof (cases rule: SELECT_DUE_cases [of env db])
  case none
  then show thesis using Idle by (simp add: materialize_one_def transaction_def)
next
  case (some j)
  have jobs_eq: "jobs (occurrence_db env j db) = jobs db" by (simp add: occurrence_db_def)
  consider "\<not> due_readable env j" | e where "due_readable env j" "CronExpression_parse cr (j_cron_expression j) = Inl e"
    | cron where "due_readable env j" "CronExpression_parse cr (j_cron_expression j) = Inr cron"
    by (metis obj_sumE)
  then show thesis
  proof cases
    case 1
    then show thesis using Err materialize_one_unreadable [OF some(1)] by blast
  next
    case (2 e)
    then show thesis
      using some Err Paused [OF some(2) 2(2)]
      by (cases rule: checked_cases [of "db\<lparr>jobs := paused_jobs env (j_id j) (jobs db)\<rparr>"])
        (auto simp: materialize_one_selected transaction_def PAUSE_def paused_jobs_def)
  next
    case (3 cron)
    note cron = 3(2)
    show thesis
    proof (cases "materialize_one cr env db")
      case (Pair res db')
      show thesis
      proof (cases res)
        case (Inl e)
        then show thesis using Err Pair by (auto simp: materialize_one_def transaction_Inl_iff)
      next
        case (Inr t)
        then obtain nxt where nxt: "CronExpression_next_after cr cron (env_now env) = Inr nxt"
          and ins: "INSERT_RUN env (due_job env j) db = Inr (occurrence_db env j db)"
          and occ: "schema_ok (occurrence_db env j db)"
          and adv: "schema_ok ((occurrence_db env j db)\<lparr>jobs := advanced_jobs env nxt (j_id j) (jobs db)\<rparr>)"
          and res: "t = Processed" "db' = (occurrence_db env j db)\<lparr>jobs := advanced_jobs env nxt (j_id j) (jobs db)\<rparr>"
          using Pair cron some(1) sch jobs_eq
          by (auto simp: materialize_one_selected [OF some(1) 3(1)] transaction_Inr_iff and_then_Inr_iff ADVANCE_def
              advanced_jobs_def INSERT_RUN_eq occurrence_db_def split: if_splits)
        then show thesis using Run [OF some(2,3) cron nxt] Pair Inr by simp
      qed
    qed
  qed
qed

lemma materialize_one_inv:
  assumes "db_inv db"
  shows "db_inv (snd (materialize_one cr env db))"
proof -
  have "schema_ok db" using assms by (simp add: db_inv_def)
  then show ?thesis
  proof (cases rule: materialize_one_cases [of db cr env])
    case (Run j cron nxt)
    have "db_inv (occurrence_db env j db)"
      using assms Run(6) by (auto simp: occurrence_db_def intro: db_inv_insert split: if_splits)
    with Run show ?thesis by (simp add: db_inv_jobs)
  qed (use assms in \<open>simp_all add: db_inv_jobs\<close>)
qed


text \<open>
  When the croner search succeeds and the clock and the generated key are good, a due schedule is
  materialized: its occurrence exists afterwards and its cursor is in the future.
\<close>

lemma materialize_one_runs:
  assumes sch: "schema_ok db" and env: "env_ok env"
    and fresh: "RunId (env_new_uuid env) \<notin> r_id ` set (runs db)"
    and some: "due_jobs env db \<noteq> []"
    and good: "\<And>j. j \<in> set (due_jobs env db) \<Longrightarrow> \<exists>cron nxt.
      CronExpression_parse cr (j_cron_expression j) = Inr cron \<and>
      CronExpression_next_after cr cron (env_now env) = Inr nxt \<and> pg_timestamp nxt"
    and read: "\<And>j. j \<in> set (due_jobs env db) \<Longrightarrow> due_readable env j"
  obtains j cron nxt where "j \<in> set (due_jobs env db)"
    "CronExpression_parse cr (j_cron_expression j) = Inr cron"
    "CronExpression_next_after cr cron (env_now env) = Inr nxt"
    "materialize_one cr env db =
      (Inr Processed, (occurrence_db env j db)\<lparr>jobs := advanced_jobs env nxt (j_id j) (jobs db)\<rparr>)"
proof (cases rule: SELECT_DUE_cases [of env db])
  case none
  then show thesis using some by simp
next
  case sel: (some j)
  then have j: "j \<in> set (jobs db)" by (simp add: due_jobs_def)
  obtain cron nxt where cn: "CronExpression_parse cr (j_cron_expression j) = Inr cron"
    "CronExpression_next_after cr cron (env_now env) = Inr nxt" "pg_timestamp nxt"
    using good [OF sel(2)] by blast
  have occ: "schema_ok (occurrence_db env j db)"
    using sch fresh occurrence_row_ok [OF sch j env]
    by (auto simp: occurrence_db_def has_occurrence_def occurrence_key_def intro!: schema_insert_run)
  have "jobs (occurrence_db env j db) = jobs db" by (simp add: occurrence_db_def)
  moreover have "schema_ok ((occurrence_db env j db)\<lparr>jobs := advanced_jobs env nxt (j_id j)
      (jobs (occurrence_db env j db))\<rparr>)"
    unfolding advanced_jobs_def using schema_job [OF occ] env cn(3)
    by (intro schema_update_jobs occ) (auto simp: job_types_def job_checks_def)
  ultimately have "materialize_one cr env db =
      (Inr Processed, (occurrence_db env j db)\<lparr>jobs := advanced_jobs env nxt (j_id j) (jobs db)\<rparr>)"
    using sel(1) cn occ occurrence_row_ok [OF sch j env]
    by (auto simp: materialize_one_selected [OF sel(1) read [OF sel(2)]] INSERT_RUN_eq ADVANCE_def
        advanced_jobs_def transaction_def occurrence_db_def)
  then show thesis using that sel(2) cn(1,2) by blast
qed

section \<open>The loop\<close>

lemma materialize_loop_steps:
  "100 \<le> n \<Longrightarrow> materialize_loop cr envs others n db = (Inr n, db)"
  "n < 100 \<Longrightarrow> materialize_one cr (envs n) db = (Inl e, db') \<Longrightarrow>
     materialize_loop cr envs others n db = (Inl e, db')"
  "n < 100 \<Longrightarrow> materialize_one cr (envs n) db = (Inr Idle, db') \<Longrightarrow>
     materialize_loop cr envs others n db = (Inr n, db')"
  "n < 100 \<Longrightarrow> materialize_one cr (envs n) db = (Inr Processed, db') \<Longrightarrow>
     materialize_loop cr envs others n db = materialize_loop cr envs others (n + 1) (others n db')"
  by (subst materialize_loop.simps, simp)+

text \<open>What holds of every way the loop can go holds of the loop.\<close>

lemma materialize_loop_cases:
  obtains (bound) "100 \<le> n" "materialize_loop cr envs others n db = (Inr n, db)"
  | (error) e db' where "n < 100" "materialize_one cr (envs n) db = (Inl e, db')"
      "materialize_loop cr envs others n db = (Inl e, db')"
  | (idle) db' where "n < 100" "materialize_one cr (envs n) db = (Inr Idle, db')"
      "materialize_loop cr envs others n db = (Inr n, db')"
  | (again) db' where "n < 100" "materialize_one cr (envs n) db = (Inr Processed, db')"
      "materialize_loop cr envs others n db = materialize_loop cr envs others (n + 1) (others n db')"
proof (cases "n < 100")
  case True
  obtain res db' where one: "materialize_one cr (envs n) db = (res, db')" by fastforce
  then show thesis
    using True error idle again materialize_loop_steps(2-4) [OF True]
    by (cases res; cases "projr res") fastforce+
next
  case False
  then have "100 \<le> n" by simp
  then show thesis using bound materialize_loop_steps(1) by blast
qed

lemma materialize_loop_inv:
  assumes "\<And>n d. db_inv d \<Longrightarrow> db_inv (others n d)" "db_inv db"
  shows "db_inv (snd (materialize_loop cr envs others n db))"
  using assms
proof (induction cr envs others n db rule: materialize_loop.induct)
  case (1 cr envs others n db)
  note inv = materialize_one_inv [OF "1.prems"(2), of cr "envs n"]
  show ?case
  proof (cases rule: materialize_loop_cases [of n cr envs others db])
    case (again d)
    then show ?thesis using "1.IH" [OF again(1) again(2) [symmetric] refl refl "1.prems"(1)] "1.prems" inv by auto
  qed (use "1.prems" inv in auto)
qed

text \<open>The loop returns at most 100, and a smaller count means that nothing was left to do.\<close>

lemma materialize_loop_count:
  assumes "\<And>n d. db_inv d \<Longrightarrow> db_inv (others n d)"
    and "materialize_loop cr envs others n db = (Inr m, db')" "n \<le> 100" "db_inv db"
  shows "m \<le> 100 \<and> (m < 100 \<longrightarrow> due_jobs (envs m) db' = [])"
  using assms
proof (induction cr envs others n db rule: materialize_loop.induct)
  case (1 cr envs others n db)
  have inv: "db_inv (snd (materialize_one cr (envs n) db))" using materialize_one_inv "1.prems"(4) .
  have sch: "schema_ok db" using "1.prems"(4) by (simp add: db_inv_def)
  show ?case
  proof (cases rule: materialize_loop_cases [of n cr envs others db])
    case (idle d)
    from sch have "due_jobs (envs n) db = [] \<and> d = db"
      by (cases rule: materialize_one_cases [of db cr "envs n"]) (use idle(2) in auto)
    then show ?thesis using "1.prems" idle by auto
  next
    case (again d)
    then show ?thesis using "1.IH" [OF again(1) again(2) [symmetric] refl refl "1.prems"(1)] "1.prems" inv by auto
  qed (use "1.prems" in auto)
qed

section \<open>Materialization is safe\<close>

lemma safe_effect_then_jobs: "safe_effect db db' \<Longrightarrow> safe_effect db (db'\<lparr>jobs := js\<rparr>)"
  by (simp add: safe_effect_def view_of_def keeps_descriptions_def keeps_history_def)

interpretation materialize_op: safe_operation "\<lambda>db. snd (materialize_one cr env db)"
  for cr env
proof
  fix db :: "'v db" assume inv: "db_inv db"
  then show "db_inv (snd (materialize_one cr env db))" by (rule materialize_one_inv)
  have sch: "schema_ok db" using inv by (simp add: db_inv_def)
  then show "safe_effect db (snd (materialize_one cr env db))"
  proof (cases rule: materialize_one_cases [of db cr env])
    case (Run j cron nxt)
    have "safe_effect db (occurrence_db env j db)"
      using Run(6) sch by (auto simp: occurrence_db_def safe_effect_refl safe_effect_insert split: if_splits)
    with Run(5) show ?thesis by (simp add: safe_effect_then_jobs)
  qed (simp_all add: safe_effect_refl safe_effect_jobs sch)
qed

section \<open>Properties\<close>

lemma one_occurrence:
  assumes sch: "schema_ok db" and has: "has_occurrence jid t db"
  shows "length (filter (\<lambda>r. r_job_id r = Some jid \<and> r_scheduled_for r = t) (runs db)) = 1"
proof -
  obtain r where r: "r \<in> set (runs db)" "r_job_id r = Some jid" "r_scheduled_for r = t"
    using has by (auto simp: has_occurrence_def)
  let ?f = "filter (\<lambda>r. r_job_id r = Some jid \<and> r_scheduled_for r = t) (runs db)"
  have dist: "distinct (map occurrence_key (filter (\<lambda>r. r_job_id r \<noteq> None) (runs db)))"
    using sch by (simp add: schema_ok_def unique_ok_def runs_unique_def)
  have "x = r" if "x \<in> set ?f" for x
  proof (rule distinct_key_eq [OF dist])
    show "x \<in> set (filter (\<lambda>r. r_job_id r \<noteq> None) (runs db))" using that by simp
    show "r \<in> set (filter (\<lambda>r. r_job_id r \<noteq> None) (runs db))" using r by simp
    show "occurrence_key x = occurrence_key r" using that r by (simp add: occurrence_key_def)
  qed
  moreover have "r \<in> set ?f" using r by simp
  ultimately have "set ?f = {r}" by blast
  moreover have "distinct ?f" using runs_distinct [OF sch] by (simp add: distinct_map)
  ultimately have "?f = [r]" by (intro distinct_set_singleton)
  then show ?thesis by simp
qed

lemma occurrence_db_has: "has_occurrence (j_id j) (j_next_run_at j) (occurrence_db env j db)"
  by (auto simp: occurrence_db_def has_occurrence_def)

text \<open>
  C24: a due schedule is materialized once and its cursor moves on. When something is due, the croner
  crate parses the due expressions and finds their next times, strictly later and in range, the client can
  read the due schedules and the clock, and the generated key is fresh, one transaction handles one due schedule: afterwards exactly one task exists
  for the slot that was due (missed slots collapse into it), the cursor is after the database time so
  the schedule is no longer due, no task is lost, and the invariant holds.
\<close>

theorem materialize_one_effect:
  assumes "db_inv db" "env_ok env" "croner_strict cr"
    and "RunId (env_new_uuid env) \<notin> r_id ` set (runs db)" "due_jobs env db \<noteq> []"
    and "\<forall>j \<in> set (due_jobs env db). \<exists>cron nxt.
      CronExpression_parse cr (j_cron_expression j) = Inr cron \<and>
      CronExpression_next_after cr cron (env_now env) = Inr nxt \<and> pg_timestamp nxt"
    and "\<forall>j \<in> set (due_jobs env db). due_readable env j"
  shows "\<exists>j \<in> set (due_jobs env db). \<exists>db'.
    materialize_one cr env db = (Inr Processed, db') \<and> db_inv db' \<and>
    length (filter (\<lambda>r. r_job_id r = Some (j_id j) \<and> r_scheduled_for r = j_next_run_at j) (runs db')) = 1 \<and>
    set (runs db) \<subseteq> set (runs db') \<and>
    (\<exists>j' \<in> set (jobs db'). j_id j' = j_id j \<and> env_now env < j_next_run_at j' \<and> \<not> due env j')"
proof -
  have sch: "schema_ok db" using assms(1) by (simp add: db_inv_def)
  obtain j cron nxt where j: "j \<in> set (due_jobs env db)"
    "CronExpression_next_after cr cron (env_now env) = Inr nxt"
    and run: "materialize_one cr env db =
      (Inr Processed, (occurrence_db env j db)\<lparr>jobs := advanced_jobs env nxt (j_id j) (jobs db)\<rparr>)"
    using materialize_one_runs [OF sch assms(2,4,5), of cr] assms(6,7) by metis
  let ?db = "(occurrence_db env j db)\<lparr>jobs := advanced_jobs env nxt (j_id j) (jobs db)\<rparr>"
  have inv: "db_inv ?db" using materialize_one_inv [OF assms(1), of cr env] run by simp
  have "has_occurrence (j_id j) (j_next_run_at j) ?db"
    using occurrence_db_has [of j env db] by (simp add: has_occurrence_def)
  then have one: "length (filter (\<lambda>r. r_job_id r = Some (j_id j) \<and> r_scheduled_for r = j_next_run_at j) (runs ?db)) = 1"
    using inv by (intro one_occurrence) (simp_all add: db_inv_def)
  have sub: "set (runs db) \<subseteq> set (runs ?db)" by (auto simp: occurrence_db_def)
  have "env_now env < nxt" using next_after_strict [OF assms(3) j(2)] .
  moreover have "j\<lparr>j_next_run_at := nxt, j_updated_at := env_now env\<rparr> \<in> set (jobs ?db)"
    using j(1) by (auto simp: advanced_jobs_def set_update_where due_jobs_def)
  ultimately have "\<exists>j' \<in> set (jobs ?db). j_id j' = j_id j \<and> env_now env < j_next_run_at j' \<and> \<not> due env j'"
    by (intro bexI [of _ "j\<lparr>j_next_run_at := nxt, j_updated_at := env_now env\<rparr>"]) (simp_all add: due_def)
  with j(1) run inv one sub show ?thesis by blast
qed

lemma sample_due: "due_jobs (sample_env 200) sample_db = [sample_job]"
  by (simp add: due_jobs_def due_def sample_db_def sample_job_def)

lemma sample_due_readable: "due_readable (sample_env 200) sample_job"
  by (simp add: due_readable_def sample_job_def chrono_timestamp_def)

lemma sample_croner_sel:
  "croner_strict sample_croner"
  "CronExpression_parse sample_croner (j_cron_expression sample_job) = Inr \<lparr>ce_source = j_cron_expression sample_job, ce_schedule = ()\<rparr>"
  "CronExpression_next_after sample_croner c 200 = Inr 260"
  "CronExpression_parse stuck_croner (j_cron_expression sample_job) = Inr \<lparr>ce_source = j_cron_expression sample_job, ce_schedule = ()\<rparr>"
  "CronExpression_next_after stuck_croner c 200 = Inl (Cron (CronText []))"
  by (simp_all add: croner_strict_def sample_croner_def stuck_croner_def cron_defs sample_job_def)

theorem materialize_one_effect_witness:
  "\<exists>db'. materialize_one sample_croner (sample_env 200) sample_db = (Inr Processed, db') \<and>
     length (filter (\<lambda>r. r_job_id r = Some (JobId 9) \<and> r_scheduled_for r = 60) (runs db')) = 1"
proof -
  have "RunId (env_new_uuid (sample_env 200)) \<notin> r_id ` set (runs sample_db)"
    by (simp add: sample_db_def sample_rows)
  moreover have "j_id sample_job = JobId 9" "j_next_run_at sample_job = 60" by (simp_all add: sample_job_def)
  moreover have "pg_timestamp 260" by (simp add: pg_timestamp_def)
  ultimately show ?thesis
    using materialize_one_effect [OF sample_inv sample_200 sample_croner_sel(1)]
    by (auto simp: sample_due sample_croner_sel sample_due_readable)
qed

text \<open>A schedule that was never skipped: its row is still there, with its cursor and its expression.\<close>

definition unskipped :: "'v SchedulerJob \<Rightarrow> 'v db \<Rightarrow> bool" where
  "unskipped j db \<longleftrightarrow> (\<exists>j' \<in> set (jobs db). j_id j' = j_id j \<and> j_next_run_at j' = j_next_run_at j \<and>
     j_cron_expression j' = j_cron_expression j)"

lemma materialize_one_unskipped:
  assumes inv: "db_inv db" and un: "unskipped j db" and bad: "CronExpression_parse cr (j_cron_expression j) = Inl e"
  shows "unskipped j (snd (materialize_one cr env db)) \<and>
    (\<forall>r. r_job_id r = Some (j_id j) \<longrightarrow>
      (r \<in> set (runs (snd (materialize_one cr env db))) \<longleftrightarrow> r \<in> set (runs db)))"
proof -
  have sch: "schema_ok db" using inv by (simp add: db_inv_def)
  obtain j' where j': "j' \<in> set (jobs db)" "j_id j' = j_id j" "j_next_run_at j' = j_next_run_at j"
    "j_cron_expression j' = j_cron_expression j" using un by (auto simp: unskipped_def)
  from sch show ?thesis
  proof (cases rule: materialize_one_cases [of db cr env])
    case (Paused i e')
    have "\<exists>x \<in> set (paused_jobs env (j_id i) (jobs db)). j_id x = j_id j \<and>
        j_next_run_at x = j_next_run_at j \<and> j_cron_expression x = j_cron_expression j"
      unfolding paused_jobs_def by (rule update_where_keeps [OF j'(1)]) (simp_all add: j')
    then show ?thesis by (simp add: Paused(3) unskipped_def)
  next
    case (Run i cron nxt)
    have "i \<in> set (jobs db)" using Run(1) by (simp add: due_jobs_def)
    then have ne: "j_id i \<noteq> j_id j" using job_eqI [OF sch _ j'(1), of i] j'(2,4) Run(3) bad by auto
    then have "j' \<in> set (advanced_jobs env nxt (j_id i) (jobs db))"
      using j'(1,2) by (auto simp: advanced_jobs_def set_update_where)
    then show ?thesis using ne j' by (auto simp: Run(5) unskipped_def occurrence_db_def)
  qed (use un in simp_all)
qed

lemma materialize_loop_unskipped:
  assumes "\<And>n d. db_inv d \<Longrightarrow> db_inv (others n d)" "\<And>n d. db_inv d \<Longrightarrow> unskipped j d \<Longrightarrow> unskipped j (others n d)"
    and "db_inv db" "unskipped j db" "CronExpression_parse cr (j_cron_expression j) = Inl e"
  shows "unskipped j (snd (materialize_loop cr envs others n db))"
  using assms
proof (induction cr envs others n db rule: materialize_loop.induct)
  case (1 cr envs others n db)
  have un: "unskipped j (snd (materialize_one cr (envs n) db))"
    using materialize_one_unskipped [OF "1.prems"(3-5)] by blast
  have inv: "db_inv (snd (materialize_one cr (envs n) db))" using materialize_one_inv "1.prems"(3) .
  show ?case
  proof (cases rule: materialize_loop_cases [of n cr envs others db])
    case (again d)
    then show ?thesis
      using "1.IH" [OF again(1) again(2) [symmetric] refl refl "1.prems"(1,2)] "1.prems" inv un by auto
  qed (use "1.prems" un in auto)
qed

lemma corrupt_selected_paused:
  assumes "db_inv db" "j \<in> set (jobs db)" "CronExpression_parse cr (j_cron_expression j) = Inl e"
    and "env_ok env" "due_readable env j" "SELECT_DUE env db = [due_job env j]"
  shows "\<exists>db'. materialize_one cr env db = (Inr Processed, db') \<and> runs db' = runs db \<and> attempts db' = attempts db \<and>
    set (jobs db') = insert (j\<lparr>j_is_paused := True, j_updated_at := env_now env\<rparr>) (set (jobs db) - {j}) \<and>
    set (due_jobs env db') = set (due_jobs env db) - {j}"
proof -
  have sch: "schema_ok db" using assms(1) by (simp add: db_inv_def)
  let ?db = "db\<lparr>jobs := paused_jobs env (j_id j) (jobs db)\<rparr>"
  have sch': "schema_ok ?db"
    unfolding paused_jobs_def using schema_job [OF sch] assms(4)
    by (intro schema_update_jobs [OF sch]) (auto simp: job_types_def job_checks_def)
  have run: "materialize_one cr env db = (Inr Processed, ?db)"
    using assms(3) sch' by (simp add: materialize_one_selected [OF assms(6,5)] PAUSE_def transaction_def paused_jobs_def)
  have "j_id x = j_id j \<longleftrightarrow> x = j" if "x \<in> set (jobs db)" for x
    using job_eqI [OF sch that assms(2)] by blast
  then have "{x \<in> set (jobs db). j_id x = j_id j} = {j}" "{x \<in> set (jobs db). j_id x \<noteq> j_id j} = set (jobs db) - {j}"
    using assms(2) by blast+
  then have jobs: "set (jobs ?db) = insert (j\<lparr>j_is_paused := True, j_updated_at := env_now env\<rparr>) (set (jobs db) - {j})"
    by (simp add: paused_jobs_def set_update_where)
  have "j \<in> set (due_jobs env db)"
  proof (cases rule: SELECT_DUE_cases [of env db])
    case none
    then show ?thesis using assms(6) by simp
  next
    case (some i)
    then have "due_job env i = due_job env j" using assms(6) by simp
    then have "j_id i = j_id j" by (metis due_job_sel(1))
    then have "i = j" using job_eqI [OF sch _ assms(2), of i] some(2) by (simp add: due_jobs_def)
    then show ?thesis using some(2) by simp
  qed
  then have np: "\<not> j_is_paused j" by (simp add: due_jobs_def due_def)
  have "j\<lparr>j_is_paused := True, j_updated_at := env_now env\<rparr> \<noteq> j"
  proof
    assume "j\<lparr>j_is_paused := True, j_updated_at := env_now env\<rparr> = j"
    from arg_cong [OF this, of j_is_paused] np show False by simp
  qed
  with jobs have "set (due_jobs env ?db) = set (due_jobs env db) - {j}"
    unfolding due_jobs_def set_filter jobs by (auto simp: due_def)
  with run jobs show ?thesis by simp
qed

text \<open>
  C25: a schedule whose stored cron no longer parses is never skipped, whatever else is due. Whichever
  schedule a transaction of the materializer handles, the corrupt one keeps its cursor and expression and no
  task of it is created or changed. When it is its turn and the client can read it, the transaction succeeds,
  pauses it, changes nothing else and takes exactly this schedule out of the due ones, so the loop goes on to
  the others. And when a whole run over any mix of schedules ends with nothing left to do, other sessions
  leaving this schedule alone, a corrupt schedule that is due and not locked has been paused.
\<close>

theorem corrupt_cron_paused:
  assumes "db_inv db" "j \<in> set (jobs db)" "CronExpression_parse cr (j_cron_expression j) = Inl e"
  shows "(case materialize_one cr env db of (res, db') \<Rightarrow>
      unskipped j db' \<and>
      (\<forall>r. r_job_id r = Some (j_id j) \<longrightarrow> (r \<in> set (runs db') \<longleftrightarrow> r \<in> set (runs db))) \<and>
      (env_ok env \<and> due_readable env j \<and> SELECT_DUE env db = [due_job env j] \<longrightarrow>
        res = Inr Processed \<and> runs db' = runs db \<and> attempts db' = attempts db \<and>
        set (jobs db') = insert (j\<lparr>j_is_paused := True, j_updated_at := env_now env\<rparr>) (set (jobs db) - {j}) \<and>
        set (due_jobs env db') = set (due_jobs env db) - {j})) \<and>
    ((\<forall>n d. db_inv d \<longrightarrow> db_inv (others n d) \<and> (unskipped j d \<longrightarrow> unskipped j (others n d))) \<longrightarrow>
      (case materialize_due_jobs cr envs others db of (res, db') \<Rightarrow>
        unskipped j db' \<and>
        (\<forall>m. res = Inr m \<and> m < 100 \<and> j_next_run_at j \<le> env_now (envs m) \<and> \<not> env_job_locked (envs m) (j_id j) \<longrightarrow>
           (\<exists>j' \<in> set (jobs db'). j_id j' = j_id j \<and> j_next_run_at j' = j_next_run_at j \<and> j_is_paused j'))))"
proof (intro conjI impI)
  have un: "unskipped j db" using assms(2) by (auto simp: unskipped_def)
  show "case materialize_one cr env db of (res, db') \<Rightarrow>
      unskipped j db' \<and>
      (\<forall>r. r_job_id r = Some (j_id j) \<longrightarrow> (r \<in> set (runs db') \<longleftrightarrow> r \<in> set (runs db))) \<and>
      (env_ok env \<and> due_readable env j \<and> SELECT_DUE env db = [due_job env j] \<longrightarrow>
        res = Inr Processed \<and> runs db' = runs db \<and> attempts db' = attempts db \<and>
        set (jobs db') = insert (j\<lparr>j_is_paused := True, j_updated_at := env_now env\<rparr>) (set (jobs db) - {j}) \<and>
        set (due_jobs env db') = set (due_jobs env db) - {j})"
    using materialize_one_unskipped [OF assms(1) un assms(3), of env] corrupt_selected_paused [OF assms, of env]
    by (auto split: prod.splits)
  assume "\<forall>n d. db_inv d \<longrightarrow> db_inv (others n d) \<and> (unskipped j d \<longrightarrow> unskipped j (others n d))"
  then have keeps: "\<And>n d. db_inv d \<Longrightarrow> db_inv (others n d)"
    "\<And>n d. db_inv d \<Longrightarrow> unskipped j d \<Longrightarrow> unskipped j (others n d)" by blast+
  show "case materialize_due_jobs cr envs others db of (res, db') \<Rightarrow>
      unskipped j db' \<and>
      (\<forall>m. res = Inr m \<and> m < 100 \<and> j_next_run_at j \<le> env_now (envs m) \<and> \<not> env_job_locked (envs m) (j_id j) \<longrightarrow>
         (\<exists>j' \<in> set (jobs db'). j_id j' = j_id j \<and> j_next_run_at j' = j_next_run_at j \<and> j_is_paused j'))"
  proof (cases "materialize_due_jobs cr envs others db")
    case (Pair res db')
    then have un': "unskipped j db'"
      using materialize_loop_unskipped [where others = others, OF keeps assms(1) un assms(3), where envs = envs and n = 0]
      by (simp add: materialize_due_jobs_def)
    have "\<exists>j' \<in> set (jobs db'). j_id j' = j_id j \<and> j_next_run_at j' = j_next_run_at j \<and> j_is_paused j'"
      if "res = Inr m" "m < 100" "j_next_run_at j \<le> env_now (envs m)" "\<not> env_job_locked (envs m) (j_id j)" for m
    proof -
      have "due_jobs (envs m) db' = []"
        using materialize_loop_count [of others cr envs 0 db m db'] keeps(1) assms(1) Pair that(1,2)
        by (simp add: materialize_due_jobs_def)
      with un' that(3,4) show ?thesis by (force simp: unskipped_def due_jobs_def due_def filter_empty_conv)
    qed
    with un' show ?thesis unfolding Pair prod.case by blast
  qed
qed

text \<open>A schedule with an expression nobody parses, due before the healthy one.\<close>

definition corrupt_job :: "nat SchedulerJob" where
  "corrupt_job = sample_job\<lparr>j_id := JobId 10, j_name := JobName (lit ''bad''), j_cron_expression := [], j_next_run_at := 30\<rparr>"

definition mixed_db :: "nat db" where
  "mixed_db = sample_db\<lparr>jobs := jobs sample_db @ [corrupt_job]\<rparr>"

lemma mixed_inv: "db_inv mixed_db"
proof -
  have "job_types corrupt_job" "job_checks corrupt_job"
    using sample_rows_ok(11,12)
    by (simp_all add: corrupt_job_def job_types_def job_checks_def pg_timestamp_def name_check_def pg_space_def)
  then have "schema_ok mixed_db"
    unfolding mixed_db_def
    by (intro schema_insert_job [OF sample_schema])
      (simp_all add: corrupt_job_def sample_db_def sample_job_def sample_name_def)
  then show ?thesis unfolding mixed_db_def by (intro db_inv_jobs sample_inv) simp
qed

lemma mixed_due: "SELECT_DUE (sample_env 200) mixed_db = [due_job (sample_env 200) corrupt_job]"
  "due_jobs (sample_env 200) mixed_db = [sample_job, corrupt_job]"
  by (simp_all add: SELECT_DUE_def select_ordered_def due_jobs_def due_def mixed_db_def sample_db_def
      corrupt_job_def sample_job_def)

theorem corrupt_cron_paused_witness:
  "\<exists>db'. materialize_one sample_croner (sample_env 200) mixed_db = (Inr Processed, db') \<and>
     runs db' = runs mixed_db \<and> set (due_jobs (sample_env 200) db') = {sample_job} \<and>
     unskipped corrupt_job (snd (materialize_due_jobs sample_croner (\<lambda>_. sample_env 200) (\<lambda>_ d. d) mixed_db))"
proof -
  have j: "corrupt_job \<in> set (jobs mixed_db)"
    and bad: "CronExpression_parse sample_croner (j_cron_expression corrupt_job) = Inl (Cron (CronDetail [] []))"
    by (simp_all add: mixed_db_def corrupt_job_def sample_croner_def cron_defs)
  have "due_readable (sample_env 200) corrupt_job" "corrupt_job \<noteq> sample_job"
    using sample_due_readable by (simp_all add: due_readable_def corrupt_job_def sample_job_def chrono_timestamp_def)
  with corrupt_cron_paused [OF mixed_inv j bad, where env = "sample_env 200" and envs = "\<lambda>_. sample_env 200" and others = "\<lambda>_ d. d"]
  show ?thesis by (auto simp: mixed_due sample_200 split: prod.splits)
qed

text \<open>
  C26: the materializer's loop ends. It reports at most 100 schedules, and when it reports fewer,
  nothing that was due and unlocked at its last look is left; on any result the invariant holds. Other
  sessions may commit between its transactions whatever keeps the invariant.
\<close>

theorem materialize_due_jobs_complete:
  assumes "db_inv db" "\<And>n d. db_inv d \<Longrightarrow> db_inv (others n d)"
  shows "case materialize_due_jobs cr envs others db of (res, db') \<Rightarrow> db_inv db' \<and>
    (\<forall>m. res = Inr m \<longrightarrow> m \<le> 100 \<and> (m < 100 \<longrightarrow> due_jobs (envs m) db' = []))"
  using materialize_loop_inv [of others db cr envs 0, OF assms(2,1)] materialize_loop_count [of others cr envs 0 db, OF assms(2)] assms(1)
  by (auto simp: materialize_due_jobs_def split: prod.splits)

theorem materialize_due_jobs_complete_witness:
  "db_inv (snd (materialize_due_jobs sample_croner (\<lambda>_. sample_env 200) (\<lambda>_ d. d) sample_db))"
  using materialize_due_jobs_complete [OF sample_inv, where cr = sample_croner and envs = "\<lambda>_. sample_env 200" and others = "\<lambda>_ d. d"]
  by (simp split: prod.splits)



end
