(* ===== verification/Jobs.thy ===== *)
theory Jobs
  imports Samples
begin

text \<open>
  \<^verbatim>\<open>src/src/jobs.rs\<close>: schedules. Every cursor is computed from the transaction's \<open>now()\<close>. The row a
  mutation returns is read by Diesel inside the transaction (\<open>load_job\<close>) and projected to \<open>Job\<close> after the
  commit. The payload's serialization and the
  collation of \<open>ORDER BY name\<close> are parameters.
\<close>

section \<open>Specifications\<close>

record ('c, 'v) CreateJob =
  cj_name :: JobName
  cj_cron :: "'c CronExpression"
  cj_args :: 'v
  cj_lease_duration :: LeaseDuration
  cj_max_attempts :: MaxAttempts
  cj_lifecycle :: JobLifecycle
  cj_retry_backoff :: RetryBackoff

definition CreateJob_new ::
    "('a \<Rightarrow> rust_string + 'v) \<Rightarrow> JobName \<Rightarrow> 'c CronExpression \<Rightarrow> LeaseDuration \<Rightarrow> MaxAttempts \<Rightarrow>
       JobLifecycle \<Rightarrow> 'a \<Rightarrow> SchedulerError + ('c, 'v) CreateJob" where
  "CreateJob_new to_value name cron lease tries lifecycle args =
     and_then (map_err Serde (to_value args)) (\<lambda>v.
     Inr \<lparr>cj_name = name, cj_cron = cron, cj_args = v, cj_lease_duration = lease,
          cj_max_attempts = tries, cj_lifecycle = lifecycle, cj_retry_backoff = RetryBackoff_default\<rparr>)"

definition CreateJob_with_retry_backoff :: "RetryBackoff \<Rightarrow> ('c, 'v) CreateJob \<Rightarrow> ('c, 'v) CreateJob" where
  "CreateJob_with_retry_backoff b spec = spec\<lparr>cj_retry_backoff := b\<rparr>"

datatype ScheduleUpdate = ResetFromNow | SetNextRunAt timestamp

datatype Applied = Changed | NotFound

text \<open>The transaction's clock; reading it is a query of its own, with a row to decode.\<close>

definition fetch_db_now :: "env \<Rightarrow> SchedulerError + timestamp" where
  "fetch_db_now env = decoded (chrono_timestamp (env_now env)) (env_now env)"

lemma fetch_db_now_simps [simp]:
  "fetch_db_now env = Inr t \<longleftrightarrow> chrono_timestamp (env_now env) \<and> t = env_now env"
  "chrono_timestamp (env_now env) \<Longrightarrow> fetch_db_now env = Inr (env_now env)"
  "\<not> chrono_timestamp (env_now env) \<Longrightarrow> fetch_db_now env = Inl decode_error"
  by (simp_all add: fetch_db_now_def)

text \<open>Diesel's reading of a returned schedule row.\<close>

definition load_job :: "env \<Rightarrow> 'v SchedulerJob \<Rightarrow> SchedulerError + 'v SchedulerJob" where
  "load_job env j =
     decoded (chrono_timestamp (j_next_run_at j) \<and> chrono_timestamp (j_created_at j) \<and>
       chrono_timestamp (j_updated_at j) \<and> env_job_args_read env (j_id j)) j"

definition new_job :: "'c croner \<Rightarrow> ('c, 'v) CreateJob \<Rightarrow> timestamp \<Rightarrow> SchedulerError + 'v NewJob" where
  "new_job cr spec db_now =
     and_then (CronExpression_next_after cr (cj_cron spec) db_now) (\<lambda>next_run_at.
     Inr \<lparr>nj_name = cj_name spec, nj_cron_expression = CronExpression_as_str (cj_cron spec),
          nj_job_args = cj_args spec, nj_next_run_at = next_run_at,
          nj_lease_duration = LeaseDuration_to_pg_interval (cj_lease_duration spec),
          nj_max_attempts = MaxAttempts_to_i32 (cj_max_attempts spec),
          nj_is_paused = JobLifecycle_is_paused (cj_lifecycle spec),
          nj_retry_backoff = RetryBackoff_to_pg_interval (cj_retry_backoff spec)\<rparr>)"

definition inserted_job :: "env \<Rightarrow> 'v NewJob \<Rightarrow> 'v SchedulerJob" where
  "inserted_job env nj =
     \<lparr>j_id = JobId (env_new_uuid env), j_name = nj_name nj, j_cron_expression = nj_cron_expression nj,
      j_job_args = nj_job_args nj, j_next_run_at = nj_next_run_at nj,
      j_lease_duration = nj_lease_duration nj, j_max_attempts = nj_max_attempts nj,
      j_is_paused = nj_is_paused nj, j_created_at = env_now env, j_updated_at = env_now env,
      j_retry_backoff = nj_retry_backoff nj\<rparr>"

section \<open>Operations\<close>

definition create ::
    "'c croner \<Rightarrow> env \<Rightarrow> ('c, 'v) CreateJob \<Rightarrow> 'v db \<Rightarrow> (SchedulerError + 'c Job) \<times> 'v db" where
  "create cr env spec db =
     (case transaction db
             (and_then (fetch_db_now env) (\<lambda>db_now.
              and_then (new_job cr spec db_now) (\<lambda>row.
              and_then (checked (db\<lparr>jobs := jobs db @ [inserted_job env row]\<rparr>)) (\<lambda>db'.
              and_then (load_job env (inserted_job env row)) (\<lambda>returned.
              Inr (returned, db')))))) of
        (Inl e, db') \<Rightarrow> (Inl e, db')
      | (Inr row, db') \<Rightarrow> (Job_try_from cr row, db'))"

definition reconcile :: "timestamp \<Rightarrow> 'v NewJob \<Rightarrow> 'v SchedulerJob \<Rightarrow> 'v SchedulerJob" where
  "reconcile db_now row j =
     j\<lparr>j_cron_expression := nj_cron_expression row, j_job_args := nj_job_args row,
       j_lease_duration := nj_lease_duration row, j_max_attempts := nj_max_attempts row,
       j_retry_backoff := nj_retry_backoff row, j_updated_at := db_now\<rparr>"

definition UPSERT_JOB :: "env \<Rightarrow> timestamp \<Rightarrow> 'v NewJob \<Rightarrow> 'v db \<Rightarrow> SchedulerError + 'v SchedulerJob list \<times> 'v db" where
  "UPSERT_JOB env db_now row db =
     (let new = inserted_job env row; conflict = (\<lambda>j. j_name j = j_name new)
      in and_then (admit (job_types new) (job_checks new)) (\<lambda>_.
         if \<exists>j \<in> set (jobs db). conflict j
         then and_then (checked (db\<lparr>jobs := update_where conflict (reconcile db_now row) (jobs db)\<rparr>)) (\<lambda>db'.
              Inr (map (reconcile db_now row) (filter conflict (jobs db)), db'))
         else and_then (checked (db\<lparr>jobs := jobs db @ [new]\<rparr>)) (\<lambda>db'. Inr ([new], db'))))"

definition ensure_job ::
    "'c croner \<Rightarrow> env \<Rightarrow> ('c, 'v) CreateJob \<Rightarrow> 'v db \<Rightarrow> (SchedulerError + 'c Job) \<times> 'v db" where
  "ensure_job cr env spec db =
     (case transaction db
             (and_then (fetch_db_now env) (\<lambda>db_now.
              and_then (new_job cr spec db_now) (\<lambda>row.
              and_then (UPSERT_JOB env db_now row db) (\<lambda>(rows, db').
              case rows of
                [] \<Rightarrow> Inl (Database DieselNotFound)
              | j # _ \<Rightarrow> and_then (load_job env j) (\<lambda>returned. Inr (returned, db')))))) of
        (Inl e, db') \<Rightarrow> (Inl e, db')
      | (Inr row, db') \<Rightarrow> (Job_try_from cr row, db'))"

definition rescheduled :: "timestamp \<Rightarrow> timestamp \<Rightarrow> 'v SchedulerJob \<Rightarrow> 'v SchedulerJob" where
  "rescheduled db_now nxt j = j\<lparr>j_next_run_at := nxt, j_updated_at := db_now\<rparr>"

definition UPDATE_NEXT ::
    "env \<Rightarrow> timestamp \<Rightarrow> timestamp \<Rightarrow> JobId \<Rightarrow> 'v db \<Rightarrow> SchedulerError + 'v SchedulerJob option \<times> 'v db" where
  "UPDATE_NEXT env db_now nxt jid db =
     and_then (bind_timestamp nxt) (\<lambda>_.
     and_then (checked (db\<lparr>jobs := update_where (\<lambda>j. j_id j = jid) (rescheduled db_now nxt) (jobs db)\<rparr>)) (\<lambda>db'.
     and_then (transpose_map (load_job env)
       (map_option (rescheduled db_now nxt) (find (\<lambda>j. j_id j = jid) (jobs db)))) (\<lambda>returned.
     Inr (returned, db'))))"

definition reschedule ::
    "'c croner \<Rightarrow> env \<Rightarrow> JobId \<Rightarrow> ScheduleUpdate \<Rightarrow> 'v db \<Rightarrow> (SchedulerError + 'c Job option) \<times> 'v db" where
  "reschedule cr env jid update db =
     (case transaction db
             (and_then (fetch_db_now env) (\<lambda>db_now.
              case update of
                SetNextRunAt ts \<Rightarrow> UPDATE_NEXT env db_now ts jid db
              | ResetFromNow \<Rightarrow>
                  (case map_option j_cron_expression (find (\<lambda>j. j_id j = jid) (jobs db)) of
                     None \<Rightarrow> Inr (None, db)
                   | Some cron_str \<Rightarrow>
                       and_then (CronExpression_parse_stored cr jid cron_str) (\<lambda>cron.
                       and_then (CronExpression_next_after cr cron db_now) (\<lambda>nxt.
                       UPDATE_NEXT env db_now nxt jid db))))) of
        (Inl e, db') \<Rightarrow> (Inl e, db')
      | (Inr row, db') \<Rightarrow> (transpose_map (Job_try_from cr) row, db'))"

definition get :: "'c croner \<Rightarrow> env \<Rightarrow> JobId \<Rightarrow> 'v db \<Rightarrow> SchedulerError + 'c Job option" where
  "get cr env jid db =
     and_then (transpose_map (load_job env) (find (\<lambda>j. j_id j = jid) (jobs db))) (\<lambda>row.
     transpose_map (Job_try_from cr) row)"

definition list_jobs ::
    "(JobName \<Rightarrow> 'k::linorder) \<Rightarrow> 'c croner \<Rightarrow> env \<Rightarrow> 'v db \<Rightarrow> SchedulerError + 'c Job list" where
  "list_jobs collation cr env db =
     and_then (collect_results (load_job env) (sort_key (\<lambda>j. collation (j_name j)) (jobs db))) (\<lambda>rows.
     collect_results (Job_try_from cr) rows)"

definition applied_from_affected :: "nat \<Rightarrow> Applied" where
  "applied_from_affected affected = (if affected > 0 then Changed else NotFound)"

definition set_paused :: "env \<Rightarrow> JobId \<Rightarrow> bool \<Rightarrow> 'v db \<Rightarrow> (SchedulerError + Applied) \<times> 'v db" where
  "set_paused env jid paused db =
     transaction db
       (and_then (checked (db\<lparr>jobs := update_where (\<lambda>j. j_id j = jid)
           (\<lambda>j. j\<lparr>j_is_paused := paused, j_updated_at := env_now env\<rparr>) (jobs db)\<rparr>)) (\<lambda>db'.
        Inr (applied_from_affected (length (filter (\<lambda>j. j_id j = jid) (jobs db))), db')))"

definition pause :: "env \<Rightarrow> JobId \<Rightarrow> 'v db \<Rightarrow> (SchedulerError + Applied) \<times> 'v db" where
  "pause env jid db = set_paused env jid True db"

definition resume :: "env \<Rightarrow> JobId \<Rightarrow> 'v db \<Rightarrow> (SchedulerError + Applied) \<times> 'v db" where
  "resume env jid db = set_paused env jid False db"

definition delete :: "JobId \<Rightarrow> 'v db \<Rightarrow> (SchedulerError + Applied) \<times> 'v db" where
  "delete jid db =
     transaction db
       (and_then (checked (db\<lparr>jobs := filter (\<lambda>j. j_id j \<noteq> jid) (jobs db)\<rparr>)) (\<lambda>db'.
        Inr (applied_from_affected (length (filter (\<lambda>j. j_id j = jid) (jobs db))), db')))"

section \<open>Mutations of the schedule table\<close>

text \<open>Every mutation changes the schedule table only, and leaves a database the schema accepts.\<close>

definition jobs_only :: "'v db \<Rightarrow> 'v db \<Rightarrow> bool" where
  "jobs_only db db' \<longleftrightarrow> (\<exists>js. db' = db\<lparr>jobs := js\<rparr>) \<and> (schema_ok db \<longrightarrow> schema_ok db')"

lemma jobs_only_refl [simp]: "jobs_only db db"
  unfolding jobs_only_def by (intro conjI exI [of _ "jobs db"]) simp_all

lemma jobs_only_inv: "db_inv db \<Longrightarrow> jobs_only db db' \<Longrightarrow> db_inv db'"
  by (auto simp: jobs_only_def db_inv_def)

lemma jobs_only_transaction:
  assumes "\<And>x db'. body = Inr (x, db') \<Longrightarrow> jobs_only db db'"
  shows "jobs_only db (snd (transaction db body))"
  by (cases rule: transaction_cases [of body db]) (use assms in auto)

lemma jobs_only_project:
  assumes "jobs_only db (snd t)"
  shows "jobs_only db (snd (case t of (Inl e, db') \<Rightarrow> (Inl e, db') | (Inr row, db') \<Rightarrow> (f row, db')))"
  using assms by (cases t) (auto split: sum.splits)

lemma checked_jobs_only: "schema_ok (db\<lparr>jobs := js\<rparr>) \<Longrightarrow> jobs_only db (db\<lparr>jobs := js\<rparr>)"
  by (auto simp: jobs_only_def)

lemmas jobs_only_intros = jobs_only_project jobs_only_transaction

lemma create_jobs_only: "jobs_only db (snd (create cr env spec db))"
  unfolding create_def by (intro jobs_only_intros) (auto simp: and_then_Inr_iff checked_jobs_only)

lemma ensure_job_jobs_only: "jobs_only db (snd (ensure_job cr env spec db))"
  unfolding ensure_job_def
  by (intro jobs_only_intros)
    (auto simp: and_then_Inr_iff UPSERT_JOB_def Let_def checked_jobs_only split: if_splits list.splits)

lemma reschedule_jobs_only: "jobs_only db (snd (reschedule cr env jid u db))"
  unfolding reschedule_def
  by (intro jobs_only_intros)
    (auto simp: and_then_Inr_iff UPDATE_NEXT_def checked_jobs_only split: ScheduleUpdate.splits option.splits)

lemma set_paused_jobs_only: "jobs_only db (snd (set_paused env jid p db))"
  unfolding set_paused_def by (intro jobs_only_intros) (auto simp: and_then_Inr_iff checked_jobs_only)

lemma delete_jobs_only: "jobs_only db (snd (delete jid db))"
  unfolding delete_def by (intro jobs_only_intros) (auto simp: and_then_Inr_iff checked_jobs_only)

section \<open>Validated specifications\<close>

text \<open>What the field types of \<open>CreateJob\<close> guarantee, and texts that PostgreSQL can store.\<close>

definition spec_inv :: "'c croner \<Rightarrow> ('c, 'v) CreateJob \<Rightarrow> bool" where
  "spec_inv cr spec \<longleftrightarrow>
     identifier_ok (JobName_as_str (cj_name spec)) \<and>
     CronExpression_parse cr (CronExpression_as_str (cj_cron spec)) = Inr (cj_cron spec) \<and>
     LeaseDuration_inv (cj_lease_duration spec) \<and> MaxAttempts_inv (cj_max_attempts spec) \<and>
     RetryBackoff_inv (cj_retry_backoff spec) \<and>
     pg_text (JobName_as_str (cj_name spec)) \<and> pg_text (CronExpression_as_str (cj_cron spec))"

lemma new_job_Inr_iff:
  "new_job cr spec t = Inr row \<longleftrightarrow>
     (\<exists>nxt. CronExpression_next_after cr (cj_cron spec) t = Inr nxt \<and>
       row = \<lparr>nj_name = cj_name spec, nj_cron_expression = CronExpression_as_str (cj_cron spec),
          nj_job_args = cj_args spec, nj_next_run_at = nxt,
          nj_lease_duration = LeaseDuration_to_pg_interval (cj_lease_duration spec),
          nj_max_attempts = MaxAttempts_to_i32 (cj_max_attempts spec),
          nj_is_paused = JobLifecycle_is_paused (cj_lifecycle spec),
          nj_retry_backoff = RetryBackoff_to_pg_interval (cj_retry_backoff spec)\<rparr>)"
  by (auto simp: new_job_def and_then_Inr_iff)

text \<open>The configuration columns of a row hold the values of a specification.\<close>

definition configured :: "('c, 'v) CreateJob \<Rightarrow> 'v SchedulerJob \<Rightarrow> bool" where
  "configured spec j \<longleftrightarrow>
     j_name j = cj_name spec \<and> j_cron_expression j = CronExpression_as_str (cj_cron spec) \<and>
     j_job_args j = cj_args spec \<and>
     j_lease_duration j = LeaseDuration_to_pg_interval (cj_lease_duration spec) \<and>
     j_max_attempts j = MaxAttempts_to_i32 (cj_max_attempts spec) \<and>
     j_retry_backoff j = RetryBackoff_to_pg_interval (cj_retry_backoff spec)"

lemma configured_row_ok:
  assumes "spec_inv cr spec" "configured spec j" "pg_timestamp (j_next_run_at j)"
    "pg_timestamp (j_created_at j)" "pg_timestamp (j_updated_at j)"
  shows "job_types j" "job_checks j"
proof -
  have "name_check pg_space (JobName_as_str (cj_name spec))"
    using assms(1) pg_space_whitespace by (intro identifier_name_check) (auto simp: spec_inv_def)
  then show "job_types j" "job_checks j"
    using assms
    by (auto simp: spec_inv_def configured_def job_types_def job_checks_def LeaseDuration_inv_def
        RetryBackoff_inv_def MaxAttempts_inv_def pg_interval_type_def LeaseDuration_to_pg_interval_def
        RetryBackoff_to_pg_interval_def lease_duration_check_iff retry_backoff_check_iff int_range_defs)
qed

definition projected :: "('c, 'v) CreateJob \<Rightarrow> 'v SchedulerJob \<Rightarrow> 'c Job" where
  "projected spec j =
     \<lparr>job_id = j_id j, job_name = cj_name spec, job_cron = cj_cron spec,
      job_lease_duration = cj_lease_duration spec, job_max_attempts = cj_max_attempts spec,
      job_retry_backoff = cj_retry_backoff spec,
      job_lifecycle = JobLifecycle_from_paused (j_is_paused j), job_next_run_at = j_next_run_at j,
      job_created_at = j_created_at j, job_updated_at = j_updated_at j\<rparr>"

lemma configured_projects:
  assumes "spec_inv cr spec" "configured spec j"
  shows "Job_try_from cr j = Inr (projected spec j)"
  using assms unfolding projected_def
  by (subst Job_try_from_ok [of cr j "cj_cron spec" "cj_lease_duration spec" "cj_max_attempts spec"
        "cj_retry_backoff spec"]) (auto simp: spec_inv_def configured_def)

lemma inserted_configured: "new_job cr spec t = Inr row \<Longrightarrow> configured spec (inserted_job env row)"
  by (auto simp: new_job_Inr_iff configured_def inserted_job_def)

lemma reconciled_configured:
  "new_job cr spec t = Inr row \<Longrightarrow> j_name j = cj_name spec \<Longrightarrow> configured spec (reconcile now row j)"
  by (auto simp: new_job_Inr_iff configured_def reconcile_def)


section \<open>Creation\<close>

text \<open>A schedule as a specification creates it at the database time \<open>env_now env\<close>.\<close>

definition spec_row :: "env \<Rightarrow> timestamp \<Rightarrow> ('c, 'v) CreateJob \<Rightarrow> 'v SchedulerJob" where
  "spec_row env nxt spec =
     \<lparr>j_id = JobId (env_new_uuid env), j_name = cj_name spec,
      j_cron_expression = CronExpression_as_str (cj_cron spec), j_job_args = cj_args spec,
      j_next_run_at = nxt, j_lease_duration = LeaseDuration_to_pg_interval (cj_lease_duration spec),
      j_max_attempts = MaxAttempts_to_i32 (cj_max_attempts spec),
      j_is_paused = JobLifecycle_is_paused (cj_lifecycle spec), j_created_at = env_now env,
      j_updated_at = env_now env, j_retry_backoff = RetryBackoff_to_pg_interval (cj_retry_backoff spec)\<rparr>"

lemma spec_row_configured: "configured spec (spec_row env nxt spec)"
  by (simp add: configured_def spec_row_def)

lemma new_job_spec_row:
  assumes "CronExpression_next_after cr (cj_cron spec) (env_now env) = Inr nxt"
  obtains row where "new_job cr spec (env_now env) = Inr row" "inserted_job env row = spec_row env nxt spec"
proof (cases "new_job cr spec (env_now env)")
  case (Inr row)
  then have "inserted_job env row = spec_row env nxt spec"
    using assms by (auto simp: new_job_Inr_iff inserted_job_def spec_row_def)
  with Inr show thesis by (rule that)
qed (use assms in \<open>simp add: new_job_def\<close>)

lemma spec_row_ok:
  assumes "spec_inv cr spec" "env_ok env" "pg_timestamp nxt"
  shows "job_types (spec_row env nxt spec)" "job_checks (spec_row env nxt spec)"
  using configured_row_ok [OF assms(1) spec_row_configured, of env nxt] assms(2,3)
  by (simp_all add: spec_row_def)

lemma spec_row_projects:
  assumes "spec_inv cr spec"
  shows "Job_try_from cr (spec_row env nxt spec) = Inr (projected spec (spec_row env nxt spec))"
  using configured_projects [OF assms spec_row_configured] .

lemma create_succeeds:
  assumes sch: "schema_ok db" and spec: "spec_inv cr spec" and env: "env_ok env"
    and nxt: "CronExpression_next_after cr (cj_cron spec) (env_now env) = Inr nxt" "pg_timestamp nxt"
    and new: "JobId (env_new_uuid env) \<notin> j_id ` set (jobs db)" "cj_name spec \<notin> j_name ` set (jobs db)"
    and read: "chrono_timestamp (env_now env)" "chrono_timestamp nxt"
      "env_job_args_read env (JobId (env_new_uuid env))"
  shows "create cr env spec db =
    (Inr (projected spec (spec_row env nxt spec)), db\<lparr>jobs := jobs db @ [spec_row env nxt spec]\<rparr>)"
proof -
  obtain row where row: "new_job cr spec (env_now env) = Inr row" "inserted_job env row = spec_row env nxt spec"
    using new_job_spec_row [OF nxt(1)] by metis
  have "schema_ok (db\<lparr>jobs := jobs db @ [spec_row env nxt spec]\<rparr>)"
    using spec_row_ok [OF spec env nxt(2)] new
    by (intro schema_insert_job [OF sch]) (auto simp: spec_row_def)
  moreover have "load_job env (spec_row env nxt spec) = Inr (spec_row env nxt spec)"
    using read by (simp add: load_job_def spec_row_def)
  ultimately show ?thesis
    using row spec_row_projects [OF spec] read(1) by (simp add: create_def transaction_def)
qed

text \<open>A second creation of the same name is refused by the unique constraint.\<close>

lemma create_duplicate:
  assumes sch: "schema_ok db" and spec: "spec_inv cr spec" and env: "env_ok env"
    and nxt: "CronExpression_next_after cr (cj_cron spec) (env_now env) = Inr nxt" "pg_timestamp nxt"
    and dup: "cj_name spec \<in> j_name ` set (jobs db)" and now: "chrono_timestamp (env_now env)"
  shows "create cr env spec db = (Inl (Database (DatabaseError UniqueViolation)), db)"
proof -
  obtain row where row: "new_job cr spec (env_now env) = Inr row" "inserted_job env row = spec_row env nxt spec"
    using new_job_spec_row [OF nxt(1)] by metis
  let ?db = "db\<lparr>jobs := jobs db @ [spec_row env nxt spec]\<rparr>"
  have "types_ok ?db" "checks_ok ?db"
    using sch spec_row_ok [OF spec env nxt(2)] by (auto simp: schema_ok_def types_ok_def checks_ok_def)
  moreover have "\<not> unique_ok ?db"
    using dup by (auto simp: unique_ok_def jobs_unique_def spec_row_def)
  ultimately show ?thesis
    using row now by (simp add: create_def transaction_def checked_def)
qed

section \<open>Declarative registration\<close>

lemma job_names_distinct: "schema_ok db \<Longrightarrow> distinct (map j_name (jobs db))"
  by (simp add: schema_ok_def unique_ok_def jobs_unique_def)

lemma filter_job_by_name:
  assumes "schema_ok db" "j \<in> set (jobs db)"
  shows "filter (\<lambda>x. j_name x = j_name j) (jobs db) = [j]"
proof (rule distinct_set_singleton)
  show "distinct (filter (\<lambda>x. j_name x = j_name j) (jobs db))"
    using job_names_distinct [OF assms(1)] by (simp add: distinct_map)
  show "set (filter (\<lambda>x. j_name x = j_name j) (jobs db)) = {j}"
    using assms(2) distinct_key_eq [OF job_names_distinct [OF assms(1)] _ assms(2)] by auto
qed

definition spec_reconciled :: "env \<Rightarrow> ('c, 'v) CreateJob \<Rightarrow> 'v SchedulerJob \<Rightarrow> 'v SchedulerJob" where
  "spec_reconciled env spec j =
     j\<lparr>j_cron_expression := CronExpression_as_str (cj_cron spec), j_job_args := cj_args spec,
       j_lease_duration := LeaseDuration_to_pg_interval (cj_lease_duration spec),
       j_max_attempts := MaxAttempts_to_i32 (cj_max_attempts spec),
       j_retry_backoff := RetryBackoff_to_pg_interval (cj_retry_backoff spec),
       j_updated_at := env_now env\<rparr>"

lemma ensure_job_existing:
  assumes sch: "schema_ok db" and spec: "spec_inv cr spec" and env: "env_ok env"
    and nxt: "CronExpression_next_after cr (cj_cron spec) (env_now env) = Inr nxt" "pg_timestamp nxt"
    and j: "j \<in> set (jobs db)" "j_name j = cj_name spec"
  shows "ensure_job cr env spec db =
    (if chrono_timestamp (env_now env) \<and> chrono_timestamp (j_next_run_at j) \<and>
        chrono_timestamp (j_created_at j) \<and> env_job_args_read env (j_id j)
     then (Inr (projected spec (spec_reconciled env spec j)),
       db\<lparr>jobs := update_where (\<lambda>x. j_name x = cj_name spec) (spec_reconciled env spec) (jobs db)\<rparr>)
     else (Inl decode_error, db))"
proof -
  obtain row where row: "new_job cr spec (env_now env) = Inr row" "inserted_job env row = spec_row env nxt spec"
    using new_job_spec_row [OF nxt(1)] by metis
  have rec: "reconcile (env_now env) row = spec_reconciled env spec"
    using row(1) by (intro ext) (auto simp: new_job_Inr_iff reconcile_def spec_reconciled_def)
  have conf: "configured spec (spec_reconciled env spec x)" if "j_name x = cj_name spec" for x
    using that by (simp add: configured_def spec_reconciled_def)
  have "schema_ok (db\<lparr>jobs := update_where (\<lambda>x. j_name x = cj_name spec) (spec_reconciled env spec) (jobs db)\<rparr>)"
  proof (rule schema_update_jobs [OF sch])
    fix x assume x: "x \<in> set (jobs db)" "j_name x = cj_name spec"
    have "pg_timestamp (j_next_run_at x)" "pg_timestamp (j_created_at x)"
      using schema_job [OF sch x(1)] by (auto simp: job_types_def)
    then show "job_types (spec_reconciled env spec x) \<and> job_checks (spec_reconciled env spec x) \<and>
        j_id (spec_reconciled env spec x) = j_id x \<and> j_name (spec_reconciled env spec x) = j_name x"
      using configured_row_ok [OF spec conf [OF x(2)]] env by (simp add: spec_reconciled_def)
  qed
  moreover have "filter (\<lambda>x. j_name x = cj_name spec) (jobs db) = [j]"
    using filter_job_by_name [OF sch j(1)] j(2) by simp
  moreover have "\<exists>x \<in> set (jobs db). j_name x = cj_name spec" using j by blast
  moreover have "j_name (spec_row env nxt spec) = cj_name spec" by (simp add: spec_row_def)
  moreover have "load_job env (spec_reconciled env spec j) =
      decoded (chrono_timestamp (j_next_run_at j) \<and> chrono_timestamp (j_created_at j) \<and>
        chrono_timestamp (env_now env) \<and> env_job_args_read env (j_id j)) (spec_reconciled env spec j)"
    by (simp add: load_job_def spec_reconciled_def)
  ultimately show ?thesis
    using row rec spec_row_ok [OF spec env nxt(2)] configured_projects [OF spec conf [OF j(2)]]
    by (cases "chrono_timestamp (env_now env)")
      (simp_all add: ensure_job_def UPSERT_JOB_def Let_def transaction_def decoded_def)
qed

lemma ensure_job_new:
  assumes sch: "schema_ok db" and spec: "spec_inv cr spec" and env: "env_ok env"
    and nxt: "CronExpression_next_after cr (cj_cron spec) (env_now env) = Inr nxt" "pg_timestamp nxt"
    and new: "JobId (env_new_uuid env) \<notin> j_id ` set (jobs db)" "cj_name spec \<notin> j_name ` set (jobs db)"
  shows "ensure_job cr env spec db = create cr env spec db"
proof -
  obtain row where row: "new_job cr spec (env_now env) = Inr row" "inserted_job env row = spec_row env nxt spec"
    using new_job_spec_row [OF nxt(1)] by metis
  have ok: "schema_ok (db\<lparr>jobs := jobs db @ [spec_row env nxt spec]\<rparr>)"
    using spec_row_ok [OF spec env nxt(2)] new
    by (intro schema_insert_job [OF sch]) (auto simp: spec_row_def)
  have "\<not> (\<exists>x \<in> set (jobs db). j_name x = j_name (spec_row env nxt spec))"
    using new(2) by (force simp: spec_row_def)
  then have "UPSERT_JOB env (env_now env) row db = Inr ([spec_row env nxt spec], db\<lparr>jobs := jobs db @ [spec_row env nxt spec]\<rparr>)"
    using row(2) ok spec_row_ok [OF spec env nxt(2)] unfolding UPSERT_JOB_def Let_def by auto
  then show ?thesis
    using row ok spec_row_projects [OF spec]
    by (cases "chrono_timestamp (env_now env)") (simp_all add: ensure_job_def create_def transaction_def)
qed

section \<open>Schedule mutations are safe\<close>

lemma jobs_only_safe:
  assumes "\<And>db. jobs_only db (op db)"
  shows "safe_operation op"
proof
  fix db :: "'a db" assume inv: "db_inv db"
  then show "db_inv (op db)" using assms by (rule jobs_only_inv)
  obtain js where "op db = db\<lparr>jobs := js\<rparr>" using assms [of db] by (auto simp: jobs_only_def)
  with inv show "safe_effect db (op db)" by (simp add: db_inv_def safe_effect_jobs)
qed

interpretation create_op: safe_operation "\<lambda>db. snd (create cr env spec db)" for cr env spec
  by (rule jobs_only_safe) (rule create_jobs_only)

interpretation ensure_op: safe_operation "\<lambda>db. snd (ensure_job cr env spec db)" for cr env spec
  by (rule jobs_only_safe) (rule ensure_job_jobs_only)

interpretation reschedule_op: safe_operation "\<lambda>db. snd (reschedule cr env jid u db)" for cr env jid u
  by (rule jobs_only_safe) (rule reschedule_jobs_only)

interpretation set_paused_op: safe_operation "\<lambda>db. snd (set_paused env jid p db)" for env jid p
  by (rule jobs_only_safe) (rule set_paused_jobs_only)

interpretation delete_op: safe_operation "\<lambda>db. snd (delete jid db)" for jid
  by (rule jobs_only_safe) (rule delete_jobs_only)

section \<open>Properties\<close>

text \<open>
  C28: a created schedule can be read back, and its name is taken. A validated specification with texts that
  PostgreSQL can store, a fresh name and key, and a clock, a next time and a payload that the client can read
  back, is created; the answer carries the specification's values, the first occurrence after the database
  time and the requested lifecycle; \<open>get\<close> returns the same job afterwards. A later \<open>create\<close> of another
  validated specification under the same name, in another session with another fresh key, fails with a
  unique violation and changes nothing.
\<close>

theorem create_then_get:
  assumes "db_inv db" "spec_inv cr spec" "env_ok env"
    and "CronExpression_next_after cr (cj_cron spec) (env_now env) = Inr nxt" "pg_timestamp nxt"
    and "JobId (env_new_uuid env) \<notin> j_id ` set (jobs db)" "cj_name spec \<notin> j_name ` set (jobs db)"
    and "chrono_timestamp (env_now env)" "chrono_timestamp nxt" "env_job_args_read env (JobId (env_new_uuid env))"
    and "spec_inv cr spec2" "cj_name spec2 = cj_name spec" "env_ok env2" "chrono_timestamp (env_now env2)"
    and "env_job_args_read env2 (JobId (env_new_uuid env))"
    and "CronExpression_next_after cr (cj_cron spec2) (env_now env2) = Inr nxt2" "pg_timestamp nxt2"
    and "JobId (env_new_uuid env2) \<notin> insert (JobId (env_new_uuid env)) (j_id ` set (jobs db))"
  shows "\<exists>job db'. create cr env spec db = (Inr job, db') \<and> db_inv db' \<and>
    get cr env2 (job_id job) db' = Inr (Some job) \<and>
    job_name job = cj_name spec \<and> job_cron job = cj_cron spec \<and> job_next_run_at job = nxt \<and>
    job_lease_duration job = cj_lease_duration spec \<and> job_max_attempts job = cj_max_attempts spec \<and>
    job_retry_backoff job = cj_retry_backoff spec \<and> job_lifecycle job = cj_lifecycle spec \<and>
    JobId (env_new_uuid env2) \<notin> j_id ` set (jobs db') \<and>
    create cr env2 spec2 db' = (Inl (Database (DatabaseError UniqueViolation)), db')"
proof -
  have sch: "schema_ok db" using assms(1) by (simp add: db_inv_def)
  let ?row = "spec_row env nxt spec"
  let ?db = "db\<lparr>jobs := jobs db @ [?row]\<rparr>"
  have run: "create cr env spec db = (Inr (projected spec ?row), ?db)"
    by (rule create_succeeds [OF sch assms(2-10)])
  have inv: "db_inv ?db" using jobs_only_inv [OF assms(1) create_jobs_only [of db cr env spec]] run by simp
  have "find (\<lambda>j. j_id j = j_id ?row) (jobs ?db) = Some ?row"
    using inv by (intro find_key_unique job_ids_distinct) (simp_all add: db_inv_def)
  moreover have "load_job env2 ?row = Inr ?row" using assms(8,9,15) by (simp add: load_job_def spec_row_def)
  ultimately have get: "get cr env2 (job_id (projected spec ?row)) ?db = Inr (Some (projected spec ?row))"
    using spec_row_projects [OF assms(2), of env nxt] by (simp add: get_def projected_def)
  have "cj_name spec2 \<in> j_name ` set (jobs ?db)" using assms(12) by (simp add: spec_row_def)
  then have dup: "create cr env2 spec2 ?db = (Inl (Database (DatabaseError UniqueViolation)), ?db)"
    using inv by (intro create_duplicate [OF _ assms(11,13,16,17) _ assms(14)]) (auto simp: db_inv_def)
  have "JobId (env_new_uuid env2) \<notin> j_id ` set (jobs ?db)" using assms(18) by (auto simp: spec_row_def)
  then show ?thesis using run inv get dup by (simp add: projected_def spec_row_def)
qed

definition sample_spec :: "(unit, nat) CreateJob" where
  "sample_spec =
     \<lparr>cj_name = JobName (lit ''report''), cj_cron = \<lparr>ce_source = lit ''cron'', ce_schedule = ()\<rparr>, cj_args = 0,
      cj_lease_duration = LeaseDuration_default_value, cj_max_attempts = MaxAttempts_default_value,
      cj_lifecycle = Active, cj_retry_backoff = RetryBackoff_default\<rparr>"

lemma sample_spec_inv: "spec_inv sample_croner sample_spec"
  by (simp add: spec_inv_def sample_spec_def sample_croner_def cron_defs identifier_ok_def MAX_IDENTIFIER_LEN_def
      is_whitespace_def LeaseDuration_inv_def LeaseDuration_default_value_def MaxAttempts_inv_def
      MaxAttempts_default_value_def RetryBackoff_inv_def RetryBackoff_default_def int_range_defs)

lemma sample_spec_next:
  "CronExpression_next_after sample_croner (cj_cron sample_spec) (env_now (sample_env 200)) = Inr 260"
  "pg_timestamp 260"
  by (simp_all add: sample_croner_def cron_defs pg_timestamp_def)

definition sample_env2 :: env where
  "sample_env2 = (sample_env 300)\<lparr>env_new_uuid := 51\<rparr>"

lemma sample_env2_sel:
  "env_ok sample_env2" "chrono_timestamp (env_now sample_env2)" "env_job_args_read sample_env2 j"
  "env_now sample_env2 = 300" "env_new_uuid sample_env2 = 51"
  by (simp_all add: sample_env2_def env_ok_def pg_timestamp_def chrono_timestamp_def)

theorem create_then_get_witness:
  "\<exists>job db'. create sample_croner (sample_env 200) sample_spec sample_db = (Inr job, db') \<and>
     job_next_run_at job = 260 \<and> get sample_croner sample_env2 (job_id job) db' = Inr (Some job) \<and>
     JobId 51 \<notin> j_id ` set (jobs db') \<and>
     create sample_croner sample_env2 (sample_spec\<lparr>cj_args := 1\<rparr>) db' = (Inl (Database (DatabaseError UniqueViolation)), db')"
proof -
  let ?spec2 = "sample_spec\<lparr>cj_args := 1\<rparr>"
  have new: "JobId (env_new_uuid (sample_env 200)) \<notin> j_id ` set (jobs sample_db)"
    "cj_name sample_spec \<notin> j_name ` set (jobs sample_db)"
    "JobId (env_new_uuid sample_env2) \<notin> insert (JobId (env_new_uuid (sample_env 200))) (j_id ` set (jobs sample_db))"
    by (simp_all add: sample_db_def sample_job_def sample_spec_def sample_name_def sample_env2_sel)
  have times: "chrono_timestamp (env_now (sample_env 200))" "chrono_timestamp 260" "pg_timestamp 360"
    "env_job_args_read (sample_env 200) (JobId (env_new_uuid (sample_env 200)))"
    by (simp_all add: chrono_timestamp_def pg_timestamp_def)
  have spec2: "spec_inv sample_croner ?spec2" "cj_name ?spec2 = cj_name sample_spec"
    using sample_spec_inv by (simp_all add: spec_inv_def)
  have next2: "CronExpression_next_after sample_croner (cj_cron ?spec2) (env_now sample_env2) = Inr 360"
    by (simp add: sample_croner_def cron_defs sample_env2_sel)
  from create_then_get [OF sample_inv sample_spec_inv sample_200 sample_spec_next new(1,2) times(1,2,4) spec2
      sample_env2_sel(1,2) sample_env2_sel(3) next2 times(3) new(3)]
  show ?thesis unfolding sample_env2_sel(5) by blast
qed

text \<open>
  C27: declarative registration never skips an occurrence and never resumes a paused schedule. When a
  schedule of the name exists, \<open>ensure_job\<close> writes the configuration of the specification to it, keeps
  its id, cursor, lifecycle and creation time, and leaves every other schedule and all tasks alone. When the
  client cannot read the clock or the returned row (a stored time beyond chrono's range, a payload beyond the
  nesting limit), the call is a decoding error and changes nothing.
\<close>

theorem ensure_job_preserves:
  assumes "db_inv db" "spec_inv cr spec" "env_ok env"
    and "CronExpression_next_after cr (cj_cron spec) (env_now env) = Inr nxt" "pg_timestamp nxt"
    and "j \<in> set (jobs db)" "j_name j = cj_name spec"
  shows "if chrono_timestamp (env_now env) \<and> chrono_timestamp (j_next_run_at j) \<and>
      chrono_timestamp (j_created_at j) \<and> env_job_args_read env (j_id j)
    then \<exists>job j' db'. ensure_job cr env spec db = (Inr job, db') \<and> db_inv db' \<and>
    runs db' = runs db \<and> attempts db' = attempts db \<and>
    set (jobs db') = insert j' (set (jobs db) - {j}) \<and> configured spec j' \<and>
    j_id j' = j_id j \<and> j_next_run_at j' = j_next_run_at j \<and> j_is_paused j' = j_is_paused j \<and>
    j_created_at j' = j_created_at j \<and>
    job_next_run_at job = j_next_run_at j \<and> job_lifecycle job = JobLifecycle_from_paused (j_is_paused j) \<and>
    job_cron job = cj_cron spec
    else ensure_job cr env spec db = (Inl (Database DieselDeserialization), db)"
proof (cases "chrono_timestamp (env_now env) \<and> chrono_timestamp (j_next_run_at j) \<and>
      chrono_timestamp (j_created_at j) \<and> env_job_args_read env (j_id j)")
  case False
  have "schema_ok db" using assms(1) by (simp add: db_inv_def)
  from ensure_job_existing [OF this assms(2-7)] show ?thesis by (simp only: False if_False)
next
  case read: True
  have sch: "schema_ok db" using assms(1) by (simp add: db_inv_def)
  let ?j = "spec_reconciled env spec j"
  let ?db = "db\<lparr>jobs := update_where (\<lambda>x. j_name x = cj_name spec) (spec_reconciled env spec) (jobs db)\<rparr>"
  have run: "ensure_job cr env spec db = (Inr (projected spec ?j), ?db)"
    using ensure_job_existing [OF sch assms(2-7)] by (simp only: read simp_thms if_True)
  have inv: "db_inv ?db" using jobs_only_inv [OF assms(1) ensure_job_jobs_only [of db cr env spec]] run by simp
  have "j_name x = cj_name spec \<longleftrightarrow> x = j" if "x \<in> set (jobs db)" for x
    using distinct_key_eq [OF job_names_distinct [OF sch] that assms(6)] assms(7) by auto
  then have "{x \<in> set (jobs db). j_name x = cj_name spec} = {j}"
    "{x \<in> set (jobs db). j_name x \<noteq> cj_name spec} = set (jobs db) - {j}"
    using assms(6) by blast+
  then have "set (jobs ?db) = insert ?j (set (jobs db) - {j})" by (simp add: set_update_where)
  then show ?thesis
    unfolding if_P [OF read] using run inv assms(7)
    by (intro exI [of _ "projected spec ?j"] exI [of _ ?j] exI [of _ ?db])
      (simp add: projected_def spec_reconciled_def configured_def)
qed

theorem ensure_job_preserves_witness:
  "\<exists>job j' db'. ensure_job sample_croner (sample_env 200) (sample_spec\<lparr>cj_name := sample_name\<rparr>) sample_db = (Inr job, db') \<and>
     j_next_run_at j' = 60 \<and> set (jobs db') = {j'}"
proof -
  have "spec_inv sample_croner (sample_spec\<lparr>cj_name := sample_name\<rparr>)"
    using sample_spec_inv
    by (simp add: spec_inv_def sample_name_def identifier_ok_def MAX_IDENTIFIER_LEN_def is_whitespace_def)
  moreover have "CronExpression_next_after sample_croner (cj_cron (sample_spec\<lparr>cj_name := sample_name\<rparr>))
      (env_now (sample_env 200)) = Inr 260" using sample_spec_next(1) by simp
  moreover have "sample_job \<in> set (jobs sample_db)" "j_name sample_job = cj_name (sample_spec\<lparr>cj_name := sample_name\<rparr>)"
    "set (jobs sample_db) - {sample_job} = {}" "j_next_run_at sample_job = 60"
    by (simp_all add: sample_db_def sample_job_def)
  moreover have "chrono_timestamp (env_now (sample_env 200)) \<and> chrono_timestamp (j_next_run_at sample_job) \<and>
      chrono_timestamp (j_created_at sample_job) \<and> env_job_args_read (sample_env 200) (j_id sample_job)"
    by (simp add: sample_job_def chrono_timestamp_def)
  ultimately show ?thesis
    using ensure_job_preserves [OF sample_inv _ sample_200 _ sample_spec_next(2)] by (metis (no_types, lifting))
qed

end
