(* ===== verification/Inspect.thy ===== *)
theory Inspect
  imports Samples
begin

text \<open>
  \<^verbatim>\<open>src/src/store/inspect.rs\<close>: the read side. The stored columns are projected to \<open>RunState\<close> and
  \<open>TaskAttempt\<close>; the \<open>Invariant\<close> errors of the projection are unreachable on a sound database, the decoding
  of a stored time beyond chrono's range is not.
\<close>

section \<open>Task state\<close>

record StatusRow =
  s_id :: RunId
  s_job_id :: "JobId option"
  s_scheduled_for :: timestamp
  s_attempt_count :: int
  s_worker_id :: "WorkerId option"
  s_lease_token :: "LeaseToken option"
  s_lease_expires_at :: "timestamp option"
  s_started_at :: "timestamp option"
  s_state :: StoredRunState
  s_finished_at :: "timestamp option"
  s_last_error :: "rust_string option"

definition status_row :: "'v run_row \<Rightarrow> StatusRow" where
  "status_row r =
     \<lparr>s_id = r_id r, s_job_id = r_job_id r, s_scheduled_for = r_scheduled_for r,
      s_attempt_count = r_attempt_count r, s_worker_id = r_worker_id r,
      s_lease_token = r_lease_token r, s_lease_expires_at = r_lease_expires_at r,
      s_started_at = r_started_at r, s_state = r_state r, s_finished_at = r_finished_at r,
      s_last_error = r_last_error r\<rparr>"

definition load_status :: "StatusRow \<Rightarrow> SchedulerError + StatusRow" where
  "load_status row =
     decoded (chrono_timestamp (s_scheduled_for row) \<and> opt_all chrono_timestamp (s_lease_expires_at row) \<and>
       opt_all chrono_timestamp (s_started_at row) \<and> opt_all chrono_timestamp (s_finished_at row)) row"

definition state_of :: "StatusRow \<Rightarrow> SchedulerError + RunState" where
  "state_of row =
     (case s_state row of
        SPending \<Rightarrow> Inr RsPending
      | SRunning \<Rightarrow>
          and_then (ok_or (s_worker_id row) (Invariant ''running task without worker'')) (\<lambda>worker.
          and_then (ok_or (s_lease_token row) (Invariant ''running task without token'')) (\<lambda>token.
          and_then (ok_or (s_lease_expires_at row) (Invariant ''running task without expiry'')) (\<lambda>expires.
          and_then (ok_or (s_started_at row) (Invariant ''running task without start'')) (\<lambda>started.
          Inr (RsRunning \<lparr>l_worker_id = worker, l_lease_token = token,
                          l_lease_expires_at = expires, l_started_at = started\<rparr>)))))
      | SCompleted \<Rightarrow>
          map_ok RsCompleted (ok_or (s_finished_at row) (Invariant ''completed task without finish''))
      | SFailed \<Rightarrow>
          and_then (ok_or (s_finished_at row) (Invariant ''failed task without finish'')) (\<lambda>finished.
          map_ok (RsFailed finished) (ok_or (s_last_error row) (Invariant ''failed task without error'')))
      | SCancelled \<Rightarrow>
          map_ok RsCancelled (ok_or (s_finished_at row) (Invariant ''cancelled task without finish'')))"

definition run_state :: "RunId \<Rightarrow> 'v db \<Rightarrow> SchedulerError + RunState option" where
  "run_state run_id db =
     and_then (collect_results load_status (map status_row (filter (\<lambda>r. r_id r = run_id) (runs db)))) (\<lambda>rows.
     transpose_map state_of (if rows = [] then None else Some (last rows)))"

section \<open>Attempt history\<close>

record AttemptRow =
  ar_attempt_number :: int
  ar_worker_id :: WorkerId
  ar_started_at :: timestamp
  ar_lease_expires_at :: timestamp
  ar_finished_at :: "timestamp option"
  ar_outcome :: "StoredAttemptOutcome option"
  ar_error :: "rust_string option"

definition attempt_columns :: "attempt_row \<Rightarrow> AttemptRow" where
  "attempt_columns a =
     \<lparr>ar_attempt_number = a_attempt_number a, ar_worker_id = a_worker_id a,
      ar_started_at = a_started_at a, ar_lease_expires_at = a_lease_expires_at a,
      ar_finished_at = a_finished_at a, ar_outcome = a_outcome a, ar_error = a_error a\<rparr>"

definition load_attempt :: "AttemptRow \<Rightarrow> SchedulerError + AttemptRow" where
  "load_attempt row =
     decoded (chrono_timestamp (ar_started_at row) \<and> chrono_timestamp (ar_lease_expires_at row) \<and>
       opt_all chrono_timestamp (ar_finished_at row)) row"

definition attempt_state :: "AttemptRow \<Rightarrow> AttemptState" where
  "attempt_state row =
     (case ar_outcome row of
        None \<Rightarrow> AsRunning
      | Some ACompleted \<Rightarrow> AsCompleted
      | Some AFailed \<Rightarrow> AsFailed (ar_error row)
      | Some AExpired \<Rightarrow> AsExpired (ar_error row)
      | Some ACancelled \<Rightarrow> AsCancelled)"

definition decode_attempt :: "AttemptRow \<Rightarrow> SchedulerError + TaskAttempt" where
  "decode_attempt row =
     and_then (ok_or (Option.bind (u32_try_from_i32 (ar_attempt_number row)) non_zero)
        (Invariant ''attempt history contains a non-positive number'')) (\<lambda>attempt.
     Inr \<lparr>t_attempt = attempt, t_worker_id = ar_worker_id row, t_started_at = ar_started_at row,
          t_lease_expires_at = ar_lease_expires_at row, t_finished_at = ar_finished_at row,
          t_state = attempt_state row\<rparr>)"

definition task_attempts :: "RunId \<Rightarrow> 'v db \<Rightarrow> SchedulerError + TaskAttempt list" where
  "task_attempts run_id db =
     and_then (collect_results load_attempt
       (map attempt_columns (sort_key a_attempt_number
         (filter (\<lambda>a. a_run_id a = run_id) (attempts db))))) (collect_results decode_attempt)"

section \<open>Sound databases are readable\<close>

text \<open>The rows whose times the client can read; payloads are not among the columns.\<close>

definition run_times_readable :: "'v run_row \<Rightarrow> bool" where
  "run_times_readable r \<longleftrightarrow>
     chrono_timestamp (r_scheduled_for r) \<and> opt_all chrono_timestamp (r_lease_expires_at r) \<and>
     opt_all chrono_timestamp (r_started_at r) \<and> opt_all chrono_timestamp (r_finished_at r)"

definition attempt_times_readable :: "attempt_row \<Rightarrow> bool" where
  "attempt_times_readable a \<longleftrightarrow>
     chrono_timestamp (a_started_at a) \<and> chrono_timestamp (a_lease_expires_at a) \<and>
     opt_all chrono_timestamp (a_finished_at a)"

lemma load_status_row: "load_status (status_row r) = decoded (run_times_readable r) (status_row r)"
  by (simp add: load_status_def status_row_def run_times_readable_def)

lemma load_attempt_rows:
  "collect_results load_attempt (map attempt_columns as) =
     (if \<forall>a \<in> set as. attempt_times_readable a then Inr (map attempt_columns as) else Inl decode_error)"
  unfolding load_attempt_def collect_decoded attempt_times_readable_def by (simp add: attempt_columns_def)

text \<open>The state a row that satisfies the schema's checks is read as.\<close>

definition read_state :: "'v run_row \<Rightarrow> RunState" where
  "read_state r =
     (case r_state r of
        SPending \<Rightarrow> RsPending
      | SRunning \<Rightarrow> RsRunning \<lparr>l_worker_id = the (r_worker_id r), l_lease_token = the (r_lease_token r),
          l_lease_expires_at = the (r_lease_expires_at r), l_started_at = the (r_started_at r)\<rparr>
      | SCompleted \<Rightarrow> RsCompleted (the (r_finished_at r))
      | SFailed \<Rightarrow> RsFailed (the (r_finished_at r)) (the (r_last_error r))
      | SCancelled \<Rightarrow> RsCancelled (the (r_finished_at r)))"

lemma state_of_ok:
  assumes "run_checks r"
  shows "state_of (status_row r) = Inr (read_state r)"
  using assms
  by (auto simp: state_of_def status_row_def read_state_def run_checks_def state_check_def
      split: StoredRunState.splits option.splits)

lemma run_state_eq:
  assumes sch: "schema_ok db"
  shows "r \<in> set (runs db) \<Longrightarrow> run_state (r_id r) db =
      (if run_times_readable r then Inr (Some (read_state r)) else Inl decode_error)"
    and "rid \<notin> r_id ` set (runs db) \<Longrightarrow> run_state rid db = Inr None"
proof -
  assume r: "r \<in> set (runs db)"
  then show "run_state (r_id r) db =
      (if run_times_readable r then Inr (Some (read_state r)) else Inl decode_error)"
    using filter_by_id [OF sch r] state_of_ok [of r] schema_run [OF sch r]
    by (simp add: run_state_def load_status_row)
next
  assume "rid \<notin> r_id ` set (runs db)"
  then have "filter (\<lambda>r. r_id r = rid) (runs db) = []" by (auto simp: filter_empty_conv)
  then show "run_state rid db = Inr None" by (simp add: run_state_def)
qed

lemma decode_attempt_ok:
  assumes "attempt_types a" "attempt_checks a"
  shows "decode_attempt (attempt_columns a) =
    Inr \<lparr>t_attempt = word_of_int (a_attempt_number a), t_worker_id = a_worker_id a,
         t_started_at = a_started_at a, t_lease_expires_at = a_lease_expires_at a,
         t_finished_at = a_finished_at a, t_state = attempt_state (attempt_columns a)\<rparr>"
    and "uint (word_of_int (a_attempt_number a) :: u32) = a_attempt_number a"
proof -
  have n: "1 \<le> a_attempt_number a" "a_attempt_number a < 2 ^ 32"
    using assms by (auto simp: attempt_types_def attempt_checks_def int_range_defs)
  then show u: "uint (word_of_int (a_attempt_number a) :: u32) = a_attempt_number a"
    unfolding uint_word_of_int by (intro mod_pos_pos_trivial) simp_all
  then have "(word_of_int (a_attempt_number a) :: u32) \<noteq> 0"
    using n(1) by (metis not_one_le_zero uint_0_eq)
  then show "decode_attempt (attempt_columns a) =
    Inr \<lparr>t_attempt = word_of_int (a_attempt_number a), t_worker_id = a_worker_id a,
         t_started_at = a_started_at a, t_lease_expires_at = a_lease_expires_at a,
         t_finished_at = a_finished_at a, t_state = attempt_state (attempt_columns a)\<rparr>"
    using n(1) by (simp add: decode_attempt_def attempt_columns_def u32_try_from_i32_def non_zero_def)
qed

lemma sorted_distinct_upto:
  assumes "sorted xs" "distinct xs" "set xs = {i :: int. 1 \<le> i \<and> i \<le> m}"
  shows "xs = [1..m]"
proof -
  have "set xs = set [1..m]" unfolding assms(3) by auto
  with assms(1,2) show ?thesis by (intro sorted_distinct_set_unique) simp_all
qed

lemma collect_results_map: "collect_results f (map g xs) = collect_results (\<lambda>x. f (g x)) xs"
  by (induction xs) (auto split: sum.splits)

text \<open>The history of a task numbers its attempts 1, 2, up to the attempt count.\<close>

lemma task_attempts_numbers:
  assumes inv: "db_inv db" and r: "r \<in> set (runs db)"
    and read: "\<forall>a \<in> set (attempts db). a_run_id a = r_id r \<longrightarrow> attempt_times_readable a"
  obtains ts where "task_attempts (r_id r) db = Inr ts"
    "map (\<lambda>t. uint (t_attempt t)) ts = [1..r_attempt_count r]"
    "r_state r = SRunning \<longleftrightarrow> (\<exists>t \<in> set ts. t_state t = AsRunning)"
proof -
  have sch: "schema_ok db" and ai: "attempts_inv (runs db) (attempts db)"
    using inv by (auto simp: db_inv_def)
  let ?own = "filter (\<lambda>a. a_run_id a = r_id r) (attempts db)"
  let ?as = "sort_key a_attempt_number ?own"
  let ?dec = "\<lambda>a. \<lparr>t_attempt = word_of_int (a_attempt_number a), t_worker_id = a_worker_id a,
         t_started_at = a_started_at a, t_lease_expires_at = a_lease_expires_at a,
         t_finished_at = a_finished_at a, t_state = attempt_state (attempt_columns a)\<rparr>"
  have ok: "attempt_types a \<and> attempt_checks a" if "a \<in> set ?as" for a
    using that schema_attempt [OF sch] by simp
  have dec: "task_attempts (r_id r) db = Inr (map ?dec ?as)"
    unfolding task_attempts_def load_attempt_rows
    using read by (simp add: collect_results_map)
      (rule collect_results_all_ok, use ok decode_attempt_ok(1) in force)
  have "distinct (map a_attempt_number ?own)"
    using sch by (auto simp: schema_ok_def unique_ok_def attempts_unique_def distinct_map inj_on_def)
  then have "distinct (map a_attempt_number ?as)"
    by (metis mset_eq_imp_distinct_iff mset_map mset_sort)
  moreover have "set (map a_attempt_number ?as) = {i. 1 \<le> i \<and> i \<le> r_attempt_count r}"
  proof -
    have "i \<in> set (map a_attempt_number ?as) \<longleftrightarrow> (r_id r, i) \<in> attempt_keys (attempts db)" for i
      by (force simp: attempt_keys_def)
    then show ?thesis using attempts_invD(3) [OF ai r] by blast
  qed
  ultimately have nums: "map a_attempt_number ?as = [1..r_attempt_count r]"
    by (intro sorted_distinct_upto) simp_all
  have "map (\<lambda>t. uint (t_attempt t)) (map ?dec ?as) = map a_attempt_number ?as"
    using ok decode_attempt_ok(2) by simp
  then have "map (\<lambda>t. uint (t_attempt t)) (map ?dec ?as) = [1..r_attempt_count r]"
    unfolding nums .
  moreover have "r_state r = SRunning \<longleftrightarrow> (\<exists>t \<in> set (map ?dec ?as). t_state t = AsRunning)"
  proof -
    have op: "attempt_state (attempt_columns a) = AsRunning \<longleftrightarrow> open_attempt a" for a
      by (simp add: attempt_state_def attempt_columns_def open_attempt_def
          split: option.splits StoredAttemptOutcome.splits)
    show ?thesis using running_iff_open [OF inv r] by (auto simp: op)
  qed
  ultimately show thesis by (rule that [OF dec])
qed

section \<open>Properties\<close>

lemma task_attempts_unreadable:
  assumes "a \<in> set (attempts db)" "a_run_id a = rid" "\<not> attempt_times_readable a"
  shows "task_attempts rid db = Inl decode_error"
  unfolding task_attempts_def load_attempt_rows using assms by auto

text \<open>
  C29: the attempt history of a task. When the client can read the times of its attempts, the history lists
  them in order, numbered 1, 2, up to the task's attempt count without gaps, there are never more of them
  than \<open>max_attempts\<close>, and one of them is running exactly when the task is: the projection's own error does
  not occur. When one of these times lies beyond chrono's range, the whole history is a decoding error.
\<close>

theorem attempt_history:
  assumes "db_inv db" "r \<in> set (runs db)"
  shows "if \<forall>a \<in> set (attempts db). a_run_id a = r_id r \<longrightarrow>
        chrono_timestamp (a_started_at a) \<and> chrono_timestamp (a_lease_expires_at a) \<and>
        opt_all chrono_timestamp (a_finished_at a)
    then \<exists>ts. task_attempts (r_id r) db = Inr ts \<and>
      map (\<lambda>t. uint (t_attempt t)) ts = [1..r_attempt_count r] \<and> int (length ts) \<le> r_max_attempts r \<and>
      (r_state r = SRunning \<longleftrightarrow> (\<exists>t \<in> set ts. t_state t = AsRunning))
    else task_attempts (r_id r) db = Inl (Database DieselDeserialization)"
  unfolding attempt_times_readable_def [symmetric]
proof (cases "\<forall>a \<in> set (attempts db). a_run_id a = r_id r \<longrightarrow> attempt_times_readable a")
  case True
  then obtain ts where ts: "task_attempts (r_id r) db = Inr ts"
    "map (\<lambda>t. uint (t_attempt t)) ts = [1..r_attempt_count r]"
    "r_state r = SRunning \<longleftrightarrow> (\<exists>t \<in> set ts. t_state t = AsRunning)"
    by (rule task_attempts_numbers [OF assms])
  have "0 \<le> r_attempt_count r" "r_attempt_count r \<le> r_max_attempts r"
    using schema_run [OF _ assms(2)] assms(1) by (auto simp: db_inv_def run_checks_def attempts_check_def)
  moreover have "length ts = nat (r_attempt_count r)"
    using arg_cong [OF ts(2), of length] by simp
  ultimately show "if \<forall>a \<in> set (attempts db). a_run_id a = r_id r \<longrightarrow> attempt_times_readable a
    then \<exists>ts. task_attempts (r_id r) db = Inr ts \<and>
      map (\<lambda>t. uint (t_attempt t)) ts = [1..r_attempt_count r] \<and> int (length ts) \<le> r_max_attempts r \<and>
      (r_state r = SRunning \<longleftrightarrow> (\<exists>t \<in> set ts. t_state t = AsRunning))
    else task_attempts (r_id r) db = Inl (Database DieselDeserialization)"
    using ts True by simp
next
  case False
  then obtain a where "a \<in> set (attempts db)" "a_run_id a = r_id r" "\<not> attempt_times_readable a" by blast
  from task_attempts_unreadable [OF this] show "if \<forall>a \<in> set (attempts db). a_run_id a = r_id r \<longrightarrow> attempt_times_readable a
    then \<exists>ts. task_attempts (r_id r) db = Inr ts \<and>
      map (\<lambda>t. uint (t_attempt t)) ts = [1..r_attempt_count r] \<and> int (length ts) \<le> r_max_attempts r \<and>
      (r_state r = SRunning \<longleftrightarrow> (\<exists>t \<in> set ts. t_state t = AsRunning))
    else task_attempts (r_id r) db = Inl (Database DieselDeserialization)"
    by (simp only: False if_False)
qed

theorem attempt_history_witness:
  "\<exists>ts. task_attempts (RunId 2) sample_db = Inr ts \<and> map (\<lambda>t. uint (t_attempt t)) ts = [1] \<and>
     (\<exists>t \<in> set ts. t_state t = AsRunning)"
proof -
  have r: "sample_running \<in> set (runs sample_db)" "r_id sample_running = RunId 2"
    by (simp_all add: sample_db_def sample_running_def sample_task_def)
  have "\<forall>a \<in> set (attempts sample_db). chrono_timestamp (a_started_at a) \<and>
      chrono_timestamp (a_lease_expires_at a) \<and> opt_all chrono_timestamp (a_finished_at a)"
    by (simp add: sample_db_def sample_open_def sample_closed_def chrono_timestamp_def)
  with attempt_history [OF sample_inv r(1)] show ?thesis
    unfolding r(2) by (auto simp: sample_running_def sample_task_def)
qed

end
