(* ===== verification/Lifecycle.thy ===== *)
theory Lifecycle
  imports Claim Reap Queue Materialize Jobs Inspect
begin

text \<open>
  The scheduler as a whole. \<open>sched_step\<close> has one rule per operation that can change the database; any
  number of workers, producers and operators interleave by taking steps in any order, each in an
  environment of its own (clock readings, row locks, generated keys). Its rules are the
  transactions of the code, so an interleaving of sessions is a sequence of steps.
\<close>

inductive sched_step :: "'c croner \<Rightarrow> 'v db \<Rightarrow> 'v db \<Rightarrow> bool" for cr :: "'c croner" where
  claim: "sched_step cr db (snd (claim_batch env w names limit db))"
| finalize: "sched_step cr db (snd (finalize_run env id rid tok out db))"
| fail: "sched_step cr db (snd (fail_run env id rid tok err retryable db))"
| renew: "sched_step cr db (snd (renew_lease env rid tok db))"
| recover: "sched_step cr db (snd (recover_expired env limit db))"
| enqueue: "sched_step cr db (snd (enqueue env (\<lambda>_ :: unit. Inr v) notify NAME () opts db))"
| cancel: "sched_step cr db (snd (cancel env snap id tid db))"
| prune: "sched_step cr db (snd (prune_terminal env before limit db))"
| materialize: "sched_step cr db (snd (materialize_one cr env db))"
| create: "sched_step cr db (snd (create cr env spec db))"
| ensure: "sched_step cr db (snd (ensure_job cr env spec db))"
| reschedule: "sched_step cr db (snd (reschedule cr env jid u db))"
| set_paused: "sched_step cr db (snd (set_paused env jid p db))"
| delete: "sched_step cr db (snd (delete jid db))"

abbreviation sched_steps :: "'c croner \<Rightarrow> 'v db \<Rightarrow> 'v db \<Rightarrow> bool" where
  "sched_steps cr \<equiv> (sched_step cr)\<^sup>*\<^sup>*"

definition reachable :: "'c croner \<Rightarrow> 'v db \<Rightarrow> bool" where
  "reachable cr db \<longleftrightarrow> sched_steps cr empty_db db"

section \<open>Every step keeps the contract\<close>

lemmas op_inv = claim_op.keeps_inv finalize_op.keeps_inv fail_op.keeps_inv renew_op.keeps_inv
  recover_op.keeps_inv enqueue_op.keeps_inv cancel_op.keeps_inv prune_op.keeps_inv
  materialize_op.keeps_inv create_op.keeps_inv ensure_op.keeps_inv reschedule_op.keeps_inv
  set_paused_op.keeps_inv delete_op.keeps_inv

lemmas op_effect = claim_op.effect finalize_op.effect fail_op.effect renew_op.effect
  recover_op.effect enqueue_op.effect cancel_op.effect prune_op.effect
  materialize_op.effect create_op.effect ensure_op.effect reschedule_op.effect
  set_paused_op.effect delete_op.effect

lemma sched_step_inv: "sched_step cr db db' \<Longrightarrow> db_inv db \<Longrightarrow> db_inv db'"
  by (induction rule: sched_step.induct) (rule op_inv, assumption)+

lemma sched_step_effect: "sched_step cr db db' \<Longrightarrow> db_inv db \<Longrightarrow> safe_effect db db'"
  by (induction rule: sched_step.induct) (rule op_effect, assumption)+

text \<open>So the scheduler simulates the abstract machine of every task.\<close>

interpretation sched: simulation "sched_step cr" task_step "\<lambda>db. view_of db i" db_inv for cr i
proof
  fix db db' :: "'b db" assume step: "sched_step cr db db'" and inv: "db_inv db"
  show "db_inv db'" by (rule sched_step_inv [OF step inv])
  show "task_step\<^sup>*\<^sup>* (view_of db i) (view_of db' i)"
    using sched_step_effect [OF step inv] by (auto simp: safe_effect_def dest!: spec [of _ i])
qed

lemmas sched_steps_inv = sched.inv_steps
lemmas sched_steps_view = sched.sim_steps

text \<open>A closed attempt is kept as it is, or its task has been removed on the way.\<close>

lemma sched_steps_history:
  assumes "sched_steps cr db db'" "db_inv db" "a \<in> set (attempts db)" "\<not> open_attempt a"
  shows "a \<in> set (attempts db') \<or>
    (\<exists>d. sched_steps cr db d \<and> sched_steps cr d db' \<and> view_of d (a_run_id a) = TAbsent)"
  using assms(1)
proof (induction rule: rtranclp_induct)
  case base
  then show ?case using assms(3) by simp
next
  case (step y z)
  have inv: "db_inv y" using sched_steps_inv step.hyps(1) assms(2) .
  from step.IH show ?case
  proof
    assume "a \<in> set (attempts y)"
    then have "a \<in> set (attempts z) \<or> view_of z (a_run_id a) = TAbsent"
      using sched_step_effect [OF step.hyps(2) inv] assms(4)
      by (auto simp: safe_effect_def keeps_history_def view_of_absent)
    then show ?thesis using step.hyps by (auto intro: rtranclp.rtrancl_into_rtrancl)
  next
    assume "\<exists>d. sched_steps cr db d \<and> sched_steps cr d y \<and> view_of d (a_run_id a) = TAbsent"
    then show ?thesis using step.hyps(2) by (meson rtranclp.rtrancl_into_rtrancl)
  qed
qed

section \<open>Fencing over time\<close>

text \<open>The token of a closed attempt is no live lease: a lease's token belongs to an open attempt.\<close>

lemma closed_token_not_live:
  assumes inv: "db_inv db" and a: "a \<in> set (attempts db)" "\<not> open_attempt a"
  shows "\<not> has_live_lease env rid (a_lease_token a) db"
proof
  assume "has_live_lease env rid (a_lease_token a) db"
  then obtain r where r: "r \<in> set (runs db)" "r_state r = SRunning" "r_lease_token r = Some (a_lease_token a)"
    by (auto simp: has_live_lease_def live_lease_def)
  have sch: "schema_ok db" and ai: "attempts_inv (runs db) (attempts db)" using inv by (auto simp: db_inv_def)
  obtain b where b: "b \<in> set (attempts db)" "open_attempt b" "mirrors r b"
    using attempts_invD(1) [OF ai r(1,2)] by blast
  then have "a_lease_token a = a_lease_token b" using r(3) by (simp add: mirrors_def)
  then have "a = b" using tokens_distinct [OF sch] a(1) b(1) by (rule distinct_key_eq [rotated -1])
  with a(2) b(2) show False by simp
qed

lemma absent_not_live: "view_of db rid = TAbsent \<Longrightarrow> \<not> has_live_lease env rid tok db"
  by (auto simp: view_of_absent has_live_lease_def live_lease_def)

section \<open>Reading the abstract state\<close>

text \<open>What \<open>run_state\<close> reports, as a view of the specification.\<close>

definition observed :: "RunState option \<Rightarrow> task_view \<Rightarrow> bool" where
  "observed s v \<longleftrightarrow>
     (case s of
        None \<Rightarrow> v = TAbsent
      | Some RsPending \<Rightarrow> (\<exists>n m. v = TPending n m)
      | Some (RsRunning l) \<Rightarrow> (\<exists>n m. v = TRunning n m (l_lease_token l))
      | Some (RsCompleted t) \<Rightarrow> v = TDone SCompleted
      | Some (RsFailed t e) \<Rightarrow> v = TDone SFailed
      | Some (RsCancelled t) \<Rightarrow> v = TDone SCancelled)"

lemma run_state_observed:
  assumes sch: "schema_ok db"
  obtains (Answer) s where "run_state i db = Inr s" "observed s (view_of db i)"
      "\<forall>r \<in> set (runs db). r_id r = i \<longrightarrow> run_times_readable r"
  | (Unreadable) r where "r \<in> set (runs db)" "r_id r = i" "\<not> run_times_readable r" "run_state i db = Inl decode_error"
proof (cases "i \<in> r_id ` set (runs db)")
  case True
  then obtain r where r: "r \<in> set (runs db)" "r_id r = i" by auto
  have tok: "r_state r = SRunning \<Longrightarrow> \<exists>tok. r_lease_token r = Some tok"
    using schema_run [OF sch r(1)] by (auto simp: run_checks_def state_check_def)
  have "observed (Some (read_state r)) (row_view r)"
    using tok by (cases "r_state r") (auto simp: observed_def read_state_def)
  then have obs: "observed (Some (read_state r)) (view_of db i)" using view_of_row [OF sch r(1)] r(2) by simp
  show thesis
  proof (cases "run_times_readable r")
    case True
    have "\<forall>x \<in> set (runs db). r_id x = i \<longrightarrow> run_times_readable x"
    proof (intro ballI impI)
      fix x assume "x \<in> set (runs db)" "r_id x = i"
      then have "x = r" using run_eqI [OF sch _ r(1)] r(2) by simp
      with True show "run_times_readable x" by simp
    qed
    with True obs show thesis using Answer [of "Some (read_state r)"] run_state_eq(1) [OF sch r(1)] r(2) by simp
  next
    case False
    then show thesis using Unreadable [OF r] run_state_eq(1) [OF sch r(1)] r(2) by simp
  qed
next
  case False
  then show thesis
    using that(1) [of None] run_state_eq(2) [OF sch False] by (auto simp: observed_def view_of_absent)
qed

section \<open>Properties\<close>

text \<open>
  C1: the invariant holds for ever. Every database that the operations can produce from the freshly
  migrated one, by any number of interleaved sessions with any clocks, locks and generated keys,
  satisfies the schema and the cross-table invariant: a running task has exactly one open attempt,
  which mirrors its lease, and the attempts of a task are numbered without gaps.
\<close>

theorem reachable_inv:
  assumes "reachable cr db"
  shows "db_inv db"
  using assms sched_steps_inv [OF _ db_inv_empty] by (auto simp: reachable_def)

theorem reachable_inv_witness:
  "db_inv (snd (create sample_croner (sample_env 200) sample_spec empty_db))"
proof (rule reachable_inv)
  show "reachable sample_croner (snd (create sample_croner (sample_env 200) sample_spec empty_db))"
    unfolding reachable_def by (intro r_into_rtranclp sched_step.create)
qed

text \<open>
  C2: refinement. Every run of the scheduler moves every task along the abstract state machine
  \<open>task_step\<close>: created pending with no attempts used; claimed only while an attempt is left, which uses
  one; back to pending only with an attempt left; to a terminal state from running, or by cancellation
  from pending; and removed only when terminal.
\<close>

theorem scheduler_refines_task_machine:
  assumes "db_inv db" "sched_steps cr db db'"
  shows "task_step\<^sup>*\<^sup>* (view_of db i) (view_of db' i)"
  using sched_steps_view [OF assms(2,1)] .

theorem scheduler_refines_task_machine_witness:
  "task_step\<^sup>*\<^sup>* (TRunning 1 3 (LeaseToken 7))
     (view_of (snd (finalize_run (sample_env 200) id (RunId 2) (LeaseToken 7) OutCompleted sample_db)) (RunId 2))"
proof -
  have "view_of sample_db (RunId 2) = TRunning 1 3 (LeaseToken 7)"
    by (simp add: view_of_def row_view_def sample_db_def sample_rows)
  moreover have "sched_steps sample_croner sample_db
      (snd (finalize_run (sample_env 200) id (RunId 2) (LeaseToken 7) OutCompleted sample_db))"
    by (intro r_into_rtranclp sched_step.finalize)
  ultimately show ?thesis using scheduler_refines_task_machine [OF sample_inv, of sample_croner _ "RunId 2"] by metis
qed

text \<open>
  C31: no task is changed behind its description: over a step of any operation, the job, slot, name,
  payload, priority, limits and deduplication key of a task stay what they were, and a terminal task
  keeps its state until it is removed.
\<close>

theorem descriptions_and_outcomes_final:
  assumes "db_inv db" "sched_step cr db db'" "r \<in> set (runs db)" "r' \<in> set (runs db')" "r_id r' = r_id r"
  shows "description r' = description r \<and> (terminal_state (r_state r) \<longrightarrow> r_state r' = r_state r)"
proof -
  have sch: "schema_ok db" and sch': "schema_ok db'"
    using assms(1) sched_step_inv [OF assms(2,1)] by (auto simp: db_inv_def)
  have eff: "safe_effect db db'" by (rule sched_step_effect [OF assms(2,1)])
  have "description r' = description r"
    using eff assms(3-5) unfolding safe_effect_def keeps_descriptions_def by blast
  moreover have "r_state r' = r_state r" if t: "terminal_state (r_state r)"
  proof -
    have "task_step\<^sup>=\<^sup>= (row_view r) (row_view r')"
      using eff view_of_row [OF sch assms(3)] view_of_row [OF sch' assms(4)] assms(5)
      by (metis safe_effect_def)
    moreover have "row_view r' \<noteq> TAbsent"
      by (simp add: row_view_def split: StoredRunState.splits option.splits)
    ultimately have "row_view r' = TDone (r_state r)" using t by (auto simp: task_step_Done_simps)
    moreover have "r_state r' = SRunning \<Longrightarrow> \<exists>tok. r_lease_token r' = Some tok"
      using schema_run [OF sch' assms(4)] by (auto simp: run_checks_def state_check_def)
    ultimately show ?thesis by (auto simp: row_view_def split: StoredRunState.splits option.splits)
  qed
  ultimately show ?thesis by blast
qed

theorem descriptions_and_outcomes_final_witness:
  "r_state ` {r' \<in> set (runs (snd (recover_expired (sample_env 500) 10 sample_db))). r_id r' = RunId 3} \<subseteq> {SCompleted}"
proof clarify
  fix r' assume r': "r' \<in> set (runs (snd (recover_expired (sample_env 500) 10 sample_db)))" "r_id r' = RunId 3"
  have s: "sample_completed \<in> set (runs sample_db)" "r_id sample_completed = RunId 3"
    "r_state sample_completed = SCompleted"
    by (simp_all add: sample_db_def sample_completed_def sample_task_def)
  have "sched_step sample_croner sample_db (snd (recover_expired (sample_env 500) 10 sample_db))"
    by (rule sched_step.recover)
  from descriptions_and_outcomes_final [OF sample_inv this s(1) r'(1)] show "r_state r' = SCompleted"
    using s r'(2) by simp
qed

text \<open>
  C6: a superseded worker stays fenced. Once an attempt is closed (by completion, failure, expiry or
  cancellation), its token is never accepted again, whatever happens later, as long as the task is not
  removed and recreated under the same id: in every later database that still has the attempt, or has
  no such task, completion, failure and renewal under that token are repelled: refused, or failing on a text
  that cannot be stored, with nothing changed but by other sessions during the call; and every later database still has it unless the task was removed on
  the way.
\<close>

theorem closed_attempt_fenced_forever:
  assumes "db_inv db" "a \<in> set (attempts db)" "a_outcome a \<noteq> None" "sched_steps cr db db'"
  shows "(a \<in> set (attempts db') \<or>
      (\<exists>d. sched_steps cr db d \<and> sched_steps cr d db' \<and> view_of d (a_run_id a) = TAbsent)) \<and>
    (a \<in> set (attempts db') \<or> view_of db' (a_run_id a) = TAbsent \<longrightarrow>
      repelled (\<lambda>x. x \<noteq> FinApplied) db' (others db')
        (finalize_run env others (a_run_id a) (a_lease_token a) out db') \<and>
      repelled (\<lambda>x. x = FlFenced \<or> x = FlAlreadyTerminal) db' (others db')
        (fail_run env others (a_run_id a) (a_lease_token a) err b db') \<and>
      renew_lease env (a_run_id a) (a_lease_token a) db' = (Inr RenewFenced, db'))"
proof (intro conjI impI)
  have closed: "\<not> open_attempt a" using assms(3) by (simp add: open_attempt_def)
  show "a \<in> set (attempts db') \<or>
      (\<exists>d. sched_steps cr db d \<and> sched_steps cr d db' \<and> view_of d (a_run_id a) = TAbsent)"
    by (rule sched_steps_history [OF assms(4,1,2) closed])
  have inv: "db_inv db'" by (rule sched_steps_inv [OF assms(4,1)])
  then have sch: "schema_ok db'" by (simp add: db_inv_def)
  assume "a \<in> set (attempts db') \<or> view_of db' (a_run_id a) = TAbsent"
  then have no: "\<not> has_live_lease env (a_run_id a) (a_lease_token a) db'"
    using closed_token_not_live [OF inv _ closed] absent_not_live by blast
  show "repelled (\<lambda>x. x \<noteq> FinApplied) db' (others db')
      (finalize_run env others (a_run_id a) (a_lease_token a) out db')"
    by (rule finalize.fenced_off [OF sch no])
  show "repelled (\<lambda>x. x = FlFenced \<or> x = FlAlreadyTerminal) db' (others db')
      (fail_run env others (a_run_id a) (a_lease_token a) err b db')"
    by (rule fail.fenced_off [OF sch no])
  show "renew_lease env (a_run_id a) (a_lease_token a) db' = (Inr RenewFenced, db')"
    using renew.fenced [OF TrueI sch no] by blast
qed

theorem closed_attempt_fenced_forever_witness:
  "renew_lease (sample_env 600) (RunId 3) (LeaseToken 8) sample_db = (Inr RenewFenced, sample_db)"
proof -
  have s: "sample_closed \<in> set (attempts sample_db)" "a_outcome sample_closed \<noteq> None"
    "a_run_id sample_closed = RunId 3" "a_lease_token sample_closed = LeaseToken 8"
    by (simp_all add: sample_db_def sample_closed_def)
  have "sched_steps sample_croner sample_db sample_db" by simp
  from closed_attempt_fenced_forever [OF sample_inv s(1,2) this] show ?thesis using s by simp
qed

text \<open>
  C30: what clients read is the abstract state. In every reachable database \<open>run_state\<close> answers for every
  id whose task has times that the client can read (scheduled, lease expiry, start and finish within chrono's
  range), and for every id without a task; its answer describes the task's state of the abstract machine, and
  a running answer carries the lease's token. The projection's own errors do not occur. A task with a time
  beyond that range, such as a claimed one whose lease ends after chrono's last year, is a decoding error.
\<close>

theorem run_state_reads_machine:
  assumes "reachable cr db"
  shows "if \<forall>r \<in> set (runs db). r_id r = i \<longrightarrow> run_times_readable r
    then \<exists>s. run_state i db = Inr s \<and> observed s (view_of db i)
    else run_state i db = Inl (Database DieselDeserialization)"
proof -
  have "schema_ok db"
    using assms sched_steps_inv [OF _ db_inv_empty] by (auto simp: reachable_def db_inv_def)
  then show ?thesis by (cases rule: run_state_observed [of db i]) auto
qed

text \<open>A task enqueued with a lease of \<open>l\<close> microseconds in the migrated database, and claimed.\<close>

definition leased_options :: "int \<Rightarrow> EnqueueOptions" where
  "leased_options l = with_lease_duration (LeaseDuration l) immediate"

abbreviation leased_row :: "int \<Rightarrow> nat run_row" where
  "leased_row l \<equiv> options_row (sample_env 200) sample_name 42 (leased_options l)"

lemma leased_reachable:
  assumes "1 \<le> l" "l \<le> i64_max" "pg_timestamp (200 + l)"
  obtains db' where "reachable sample_croner db'" "schema_ok db'"
    "db' = claimed_db (sample_env 200) [JobName_as_str sample_name] 5 sample_worker (empty_db\<lparr>runs := [leased_row l]\<rparr>)"
    "claim_candidates (sample_env 200) [JobName_as_str sample_name] 5 (empty_db\<lparr>runs := [leased_row l]\<rparr>) = [leased_row l]"
    "schema_ok (empty_db\<lparr>runs := [leased_row l]\<rparr>)"
proof -
  let ?env = "sample_env 200" and ?names = "[JobName_as_str sample_name]" and ?o = "leased_options l"
  let ?db1 = "(empty_db :: nat db)\<lparr>runs := [leased_row l]\<rparr>"
  have o: "options_inv ?o" "pg_timestamp (options_time ?env ?o)" "options_key ?o = None"
    using assms
    by (simp_all add: leased_options_def with_lease_duration_def options_inv_def immediate_def EnqueueOptions_default_def
        LeaseDuration_inv_def MaxAttempts_inv_def MaxAttempts_default_value_def RetryBackoff_inv_def
        RetryBackoff_default_def int_range_defs options_time_def pg_timestamp_def options_key_def)
  have n: "identifier_ok (JobName_as_str sample_name)" "JobName (JobName_as_str sample_name) = sample_name"
    by (simp_all add: identifier_ok_def MAX_IDENTIFIER_LEN_def is_whitespace_def sample_name_def)
  have inv0: "db_inv (empty_db :: nat db)" by (rule db_inv_empty)
  then have sch: "schema_ok (empty_db :: nat db)" by (simp add: db_inv_def)
  have "snd (enqueue ?env (\<lambda>_ :: unit. Inr 42) (Inr ()) (JobName_as_str sample_name) () ?o empty_db) = ?db1"
    using enqueue_new(2) [where args = "()" and v = 42 and to_value = "\<lambda>_. Inr 42" and notify = "Inr ()",
        OF sch o(1) n(1) _ refl sample_200 o(2)] o(3) n(2)
    by (simp add: enqueue_texts_ok_def empty_db_def)
  then have one: "sched_step sample_croner (empty_db :: nat db) ?db1"
    using sched_step.enqueue [of sample_croner "empty_db :: nat db" ?env 42 "Inr ()" "JobName_as_str sample_name" ?o] by simp
  have inv: "db_inv ?db1" by (rule sched_step_inv [OF one db_inv_empty])
  have C: "claim_candidates ?env ?names 5 ?db1 = [leased_row l]"
    by (simp add: claim_candidates_def select_ordered_def claimable_def options_row_def enqueued_row_def Let_def
        leased_options_def with_lease_duration_def immediate_def EnqueueOptions_default_def)
  have env: "claim_env_ok ?env [leased_row l] ?db1"
    using assms
    by (simp add: claim_env_ok_def claim_expiry_def options_row_def enqueued_row_def Let_def leased_options_def
        with_lease_duration_def LeaseDuration_to_pg_interval_def empty_db_def)
  have u: "unat (5 :: usize) = 5" "uint (5 :: usize) \<le> i64_max" by (simp_all add: i64_max_def)
  have env': "claim_env_ok ?env (claim_candidates ?env ?names (unat (5 :: usize)) ?db1) ?db1"
    unfolding u(1) C by (rule env)
  have claim: "snd (claim_batch ?env sample_worker ?names 5 ?db1) =
      claimed_db ?env ?names (unat (5 :: usize)) sample_worker ?db1"
    by (rule claim_batch_commits [OF inv sample_200 sample_worker_ok u(2) env' sample_claim_texts]) (simp only: snd_conv)
  let ?db2 = "claimed_db ?env ?names 5 sample_worker ?db1"
  have two: "sched_step sample_croner ?db1 ?db2"
    using sched_step.claim [of sample_croner ?db1 ?env sample_worker ?names 5] unfolding claim u(1) .
  have "reachable sample_croner ?db2"
    unfolding reachable_def by (rule rtranclp.rtrancl_into_rtrancl [OF r_into_rtranclp [of "sched_step sample_croner", OF one] two])
  moreover have "db_inv ?db2" by (rule sched_step_inv [OF two inv])
  ultimately show thesis using that C inv by (simp add: db_inv_def)
qed

lemma leased_read:
  assumes "1 \<le> l" "l \<le> i64_max" "pg_timestamp (200 + l)"
  shows "\<exists>db. reachable sample_croner db \<and> view_of db (RunId 50) = TRunning 1 3 (LeaseToken 150) \<and>
    run_times_readable (claim_update (sample_env 200) sample_worker (leased_row l)) = chrono_timestamp (200 + l) \<and>
    runs db = [claim_update (sample_env 200) sample_worker (leased_row l)]"
  using assms
proof (rule leased_reachable)
  fix db' assume d: "reachable sample_croner db'" "schema_ok db'"
    "db' = claimed_db (sample_env 200) [JobName_as_str sample_name] 5 sample_worker (empty_db\<lparr>runs := [leased_row l]\<rparr>)"
    "claim_candidates (sample_env 200) [JobName_as_str sample_name] 5 (empty_db\<lparr>runs := [leased_row l]\<rparr>) = [leased_row l]"
    "schema_ok (empty_db\<lparr>runs := [leased_row l]\<rparr>)"
  have "view_of db' (RunId 50) = TRunning 1 3 (LeaseToken 150)"
    using claimed_view(1) [OF d(5), of "sample_env 200" "[JobName_as_str sample_name]" 5 sample_worker "leased_row l"] d(2-4)
    by (simp add: options_row_def enqueued_row_def Let_def leased_options_def with_lease_duration_def immediate_def
        EnqueueOptions_default_def MaxAttempts_default_value_def MaxAttempts_to_i32_def)
  moreover have "runs db' = [claim_update (sample_env 200) sample_worker (leased_row l)]"
    using d(3,4) by (simp add: claimed_db_def)
  moreover have "run_times_readable (claim_update (sample_env 200) sample_worker (leased_row l)) = chrono_timestamp (200 + l)"
    by (simp add: run_times_readable_def claim_update_def claim_expiry_def options_row_def enqueued_row_def Let_def
        leased_options_def with_lease_duration_def LeaseDuration_to_pg_interval_def immediate_def
        EnqueueOptions_default_def chrono_timestamp_def)
  ultimately show ?thesis using d(1) by blast
qed

theorem run_state_reads_machine_witness:
  "(\<exists>db s. reachable sample_croner (db :: nat db) \<and> run_state (RunId 50) db = Inr s \<and>
      observed s (TRunning 1 3 (LeaseToken 150))) \<and>
   (\<exists>db. reachable sample_croner (db :: nat db) \<and> view_of db (RunId 50) = TRunning 1 3 (LeaseToken 150) \<and>
      run_state (RunId 50) db = Inl (Database DieselDeserialization))"
proof -
  have l: "(1 :: int) \<le> 300" "(300 :: int) \<le> i64_max" "pg_timestamp (200 + 300)" "chrono_timestamp (200 + 300)"
    "1 \<le> far_lease" "far_lease \<le> i64_max" "pg_timestamp (200 + far_lease)" "\<not> chrono_timestamp (200 + far_lease)"
    by (simp_all add: i64_max_def far_lease_def pg_timestamp_def chrono_timestamp_def)
  have id: "r_id (claim_update (sample_env 200) sample_worker (leased_row m)) = RunId 50" for m
    by (simp add: claim_update_def)
  obtain d1 where d1: "reachable sample_croner d1" "view_of d1 (RunId 50) = TRunning 1 3 (LeaseToken 150)"
    "run_times_readable (claim_update (sample_env 200) sample_worker (leased_row 300))"
    "runs d1 = [claim_update (sample_env 200) sample_worker (leased_row 300)]"
    using leased_read [OF l(1-3)] l(4) by blast
  have r1: "\<forall>r \<in> set (runs d1). r_id r = RunId 50 \<longrightarrow> run_times_readable r" using d1(3,4) by simp
  obtain d2 where d2: "reachable sample_croner d2" "view_of d2 (RunId 50) = TRunning 1 3 (LeaseToken 150)"
    "\<not> run_times_readable (claim_update (sample_env 200) sample_worker (leased_row far_lease))"
    "runs d2 = [claim_update (sample_env 200) sample_worker (leased_row far_lease)]"
    using leased_read [OF l(5-7)] l(8) by blast
  have r2: "\<not> (\<forall>r \<in> set (runs d2). r_id r = RunId 50 \<longrightarrow> run_times_readable r)" using d2(3,4) id by simp
  show ?thesis
    using run_state_reads_machine [OF d1(1), of "RunId 50"] run_state_reads_machine [OF d2(1), of "RunId 50"] d1(1,2) d2(1,2)
    unfolding if_P [OF r1] if_not_P [OF r2] by metis
qed

end
