(* ===== verification/Progress.thy ===== *)
theory Progress
  imports Lifecycle
begin

text \<open>
  What concurrent workers promise each other and the queue: claims are disjoint, and no task ever gets
  stuck; and a race in which a cancellation misses a claim. For the latter, \<open>worker_action\<close> has the three operations by which workers move tasks, all at one
  moment: recovery of an expired lease, a claim, a completion.
\<close>

section \<open>Single candidates\<close>

text \<open>When all other rows are locked, a bounded selection takes the one that is left.\<close>

lemma select_unlocked:
  assumes "schema_ok db" "r \<in> set (runs db)" "p r"
  shows "select_ordered k (\<lambda>x. p x \<and> \<not> r_id x \<noteq> r_id r) (Suc n) (runs db) = [r]"
proof -
  have "set (filter (\<lambda>x. p x \<and> \<not> r_id x \<noteq> r_id r) (runs db)) = {r}"
    using assms run_eqI [OF assms(1)] by auto
  moreover have "distinct (filter (\<lambda>x. p x \<and> \<not> r_id x \<noteq> r_id r) (runs db))"
    using runs_distinct [OF assms(1)] by (simp add: distinct_map)
  ultimately have "filter (\<lambda>x. p x \<and> \<not> r_id x \<noteq> r_id r) (runs db) = [r]" by (intro distinct_set_singleton)
  then show ?thesis by (simp add: select_ordered_def)
qed

section \<open>Actions of workers at a moment\<close>

definition reads :: "timestamp \<Rightarrow> env \<Rightarrow> bool" where
  "reads t env \<longleftrightarrow> env_now env = t \<and> (\<forall>site i. env_clock env site i = t)"

inductive worker_action :: "timestamp \<Rightarrow> 'v db \<Rightarrow> 'v db \<Rightarrow> bool" for t where
  recover: "reads t env \<Longrightarrow> worker_action t db (snd (recover_expired env limit db))"
| claim: "reads t env \<Longrightarrow> claim_batch env w names limit db = (Inr cs, db') \<Longrightarrow> worker_action t db db'"
| complete: "reads t env \<Longrightarrow> worker_action t db (snd (finalize_run env id rid tok OutCompleted db))"

lemma worker_action_sched: "worker_action t db db' \<Longrightarrow> sched_step cr db db'"
proof (induction rule: worker_action.induct)
  case (claim env w names limit db cs db')
  then show ?case using sched_step.claim [of cr db env w names limit] by simp
qed (rule sched_step.recover sched_step.finalize)+

text \<open>A session that finds every other task locked, at time \<open>t\<close>, and draws the token \<open>u\<close>.\<close>

definition session :: "timestamp \<Rightarrow> RunId \<Rightarrow> uuid \<Rightarrow> env" where
  "session t i u =
     \<lparr>env_now = t, env_clock = (\<lambda>_ _. t), env_run_locked = (\<lambda>j. j \<noteq> i), env_job_locked = (\<lambda>_. False),
      env_new_uuid = u, env_token = (\<lambda>_. u), env_run_args_read = (\<lambda>_. True),
      env_job_args_read = (\<lambda>_. True)\<rparr>"

lemma session_simps [simp]:
  "env_now (session t i u) = t" "env_clock (session t i u) site j = t" "env_run_locked (session t i u) j \<longleftrightarrow> j \<noteq> i"
  "env_token (session t i u) j = u" "env_run_args_read (session t i u) j" "reads t (session t i u)" "env_ok (session t i u) \<longleftrightarrow> pg_timestamp t"
  by (auto simp: session_def reads_def env_ok_def)

section \<open>From each state to a terminal one\<close>

lemma running_completes:
  assumes inv: "db_inv db" and t: "pg_timestamp t"
    and r: "r \<in> set (runs db)" "live_lease (session t i u) rid tok r"
  shows "\<exists>db'. worker_action t db db' \<and> view_of db' rid = TDone SCompleted"
proof -
  have env: "env_ok (session t i u)" using t by simp
  have "worker_action t db (snd (finalize_run (session t i u) id rid tok OutCompleted db))"
    by (rule worker_action.complete) simp
  then show ?thesis
    using completed_view [OF inv env r] finalize_run_succeeds [OF inv env r, of OutCompleted id] by (metis outcome_text_ok_simps(1) snd_conv)
qed

lemma pending_completes:
  assumes inv: "db_inv db" and t: "pg_timestamp t" "chrono_timestamp (t + iv_microseconds (r_lease_duration r))"
    and r: "r \<in> set (runs db)" "r_state r = SPending" "r_available_at r \<le> t"
    and u: "LeaseToken u \<notin> a_lease_token ` set (attempts db)" and sf: "chrono_timestamp (r_scheduled_for r)"
  shows "\<exists>db'. (worker_action t)\<^sup>*\<^sup>* db db' \<and> view_of db' (r_id r) = TDone SCompleted"
proof -
  let ?env = "session t (r_id r) u" and ?names = "[JobName_as_str (r_job_name r)]"
  let ?db = "claimed_db ?env ?names 1 sample_worker db"
  have sch: "schema_ok db" using inv by (simp add: db_inv_def)
  have "claim_candidates ?env ?names (Suc n) db = [r]" for n
    unfolding claim_candidates_def using r select_unlocked [OF sch r(1), of "claimable ?env ?names"]
    by (simp add: claimable_def)
  then have cand: "claim_candidates ?env ?names (unat (1 :: usize)) db = [r]"
    and cand1: "claim_candidates ?env ?names 1 db = [r]" by simp_all
  have "1 \<le> iv_microseconds (r_lease_duration r)"
    using schema_run [OF sch r(1)] by (simp add: run_checks_def lease_duration_check_iff)
  then have lease: "t < claim_expiry ?env r" "pg_timestamp (claim_expiry ?env r)" using t by (simp_all add: claim_expiry_def pg_timestamp_def chrono_timestamp_def)
  have cenv: "claim_env_ok ?env (claim_candidates ?env ?names (unat (1 :: usize)) db) db"
    unfolding cand using lease u by (simp add: claim_env_ok_def)
  have env: "env_ok ?env" using t by simp
  have read: "claim_readable ?env (claim_candidates ?env ?names (unat (1 :: usize)) db)"
    unfolding cand using t(2) sf by (simp add: claim_readable_def claim_expiry_def)
  have lim: "uint (1 :: usize) \<le> i64_max" by (simp add: i64_max_def)
  have texts: "claim_texts_ok ?names sample_worker"
    using schema_run [OF sch r(1)] by (simp add: claim_texts_ok_def run_types_def)
  obtain cs where run: "claim_batch ?env sample_worker ?names 1 db = (Inr cs, ?db)"
    using claim_batch_Ok [OF inv env sample_worker_ok lim cenv texts read] by auto
  have act: "worker_action t db ?db"
    using worker_action.claim [OF _ run] by simp
  have inv': "db_inv ?db" using claim_batch_inv [OF inv, of ?env sample_worker ?names 1] run by simp
  have row: "claim_update ?env sample_worker r \<in> set (runs ?db)"
    "live_lease ?env (r_id r) (LeaseToken u) (claim_update ?env sample_worker r)"
    using cand1 r(1) lease by (auto simp: claimed_db_def set_update_where live_lease_def claim_update_def)
  from running_completes [OF inv' t(1) row] act show ?thesis
    by (meson converse_rtranclp_into_rtranclp r_into_rtranclp)
qed

text \<open>Recovery of a single expired lease.\<close>

lemma expired_recovers:
  assumes inv: "db_inv db" and t: "pg_timestamp t"
    and r: "r \<in> set (runs db)" "lease_expired (session t (r_id r) u) r"
  obtains db' where "worker_action t db db'" "db_inv db'" "recover_update (session t (r_id r) u) r \<in> set (runs db')"
    "a_lease_token ` set (attempts db') = a_lease_token ` set (attempts db)"
proof
  let ?env = "session t (r_id r) u"
  let ?db = "recovered_db ?env 1 db"
  have sch: "schema_ok db" using inv by (simp add: db_inv_def)
  have cand: "recover_candidates ?env 1 db = [r]"
    unfolding recover_candidates_def using r select_unlocked [OF sch r(1), of "lease_expired ?env" _ 0] by simp
  have lim: "uint (1 :: usize) \<le> i64_max" by (simp add: i64_max_def)
  have run: "snd (recover_expired ?env 1 db) = ?db"
    using recover_expired_succeeds [OF inv _ lim, of ?env] t by simp
  show "worker_action t db ?db" using worker_action.recover [of t ?env db 1] run by simp
  show "db_inv ?db" using recover_expired_inv [OF inv, of ?env 1] run by simp
  show "recover_update ?env r \<in> set (runs ?db)"
    using r(1) cand by (auto simp: recovered_db_def Let_def set_update_where)
  have "map a_lease_token (attempts ?db) = map a_lease_token (attempts db)"
    unfolding recovered_db_def Let_def by (simp add: map_key_update_where close_attempt_def)
  then show "a_lease_token ` set (attempts ?db) = a_lease_token ` set (attempts db)" by (metis list.set_map)
qed

section \<open>Properties\<close>

text \<open>
  C9: two claimers never own the same task. Whatever one worker has claimed, a worker that claims next
  gets other tasks, under other tokens, whatever its clock, locks, names and limit.
\<close>

theorem claimers_disjoint:
  assumes "db_inv db" "claim_batch e1 w1 names1 limit1 db = (Inr cs1, db1)"
    and "claim_batch e2 w2 names2 limit2 db1 = (Inr cs2, db2)"
  shows "c_run_id ` set cs1 \<inter> c_run_id ` set cs2 = {} \<and> c_lease_token ` set cs1 \<inter> c_lease_token ` set cs2 = {}"
proof -
  have inv1: "db_inv db1" using claim_batch_inv [OF assms(1), of e1 w1 names1 limit1] assms(2) by simp
  have sch: "schema_ok db" and sch1: "schema_ok db1" using assms(1) inv1 by (simp_all add: db_inv_def)
  let ?C1 = "claim_candidates e1 names1 (unat limit1) db" and ?C2 = "claim_candidates e2 names2 (unat limit2) db1"
  from assms(1) have c1: "db1 = claimed_db e1 names1 (unat limit1) w1 db"
      "list_all2 (\<lambda>row c. decode_claimed row = Inr c) (claimed_rows e1 names1 (unat limit1) db) cs1"
    by (cases rule: claim_batch_cases [of db e1 w1 names1 limit1]; use assms(2) in simp)+
  from inv1 have c2: "schema_ok (claimed_db e2 names2 (unat limit2) w2 db1)"
      "list_all2 (\<lambda>row c. decode_claimed row = Inr c) (claimed_rows e2 names2 (unat limit2) db1) cs2"
    by (cases rule: claim_batch_cases [of db1 e2 w2 names2 limit2]; use assms(3) in simp)+
  have "r_id r \<noteq> r_id r2" if r: "r \<in> set ?C1" and r2: "r2 \<in> set ?C2" for r r2
  proof
    assume eq: "r_id r = r_id r2"
    have "claim_update e1 w1 r \<in> set (runs db1)"
      using claim_candidatesD(1) [OF r] r by (auto simp: c1(1) claimed_db_def set_update_where)
    then have "r2 = claim_update e1 w1 r"
      using eq by (intro run_eqI [OF sch1 claim_candidatesD(1) [OF r2]]) (simp_all add: claim_update_def)
    then show False using claim_candidatesD(2) [OF r2] by (simp add: claimable_def claim_update_def)
  qed
  then have "c_run_id ` set cs1 \<inter> c_run_id ` set cs2 = {}"
    unfolding claimed_ids(1) [OF c1(2) sch] claimed_ids(1) [OF c2(2) sch1] by blast
  moreover have "c_lease_token ` set cs1 \<inter> c_lease_token ` set cs2 = {}"
    using claim_batch_tokens(1) [OF assms(1,2)] claim_batch_tokens(2) [OF inv1 assms(3)] by blast
  ultimately show ?thesis by blast
qed

theorem claimers_disjoint_witness:
  "\<exists>cs1 db1 cs2 db2.
     claim_batch (sample_env 200) sample_worker [JobName_as_str sample_name] 1 sample_db2 = (Inr cs1, db1) \<and>
     claim_batch (sample_env 200) sample_worker [JobName_as_str sample_name] 1 db1 = (Inr cs2, db2) \<and>
     length cs1 = 1 \<and> length cs2 = 1 \<and> c_run_id ` set cs1 \<inter> c_run_id ` set cs2 = {}"
proof -
  let ?env = "sample_env 200" and ?names = "[JobName_as_str sample_name]"
  have lim: "uint (1 :: usize) \<le> i64_max" by (simp add: i64_max_def)
  have C1: "claim_candidates ?env ?names (unat (1 :: usize)) sample_db2 = [sample_pending]" by (simp add: sample_candidates)
  let ?db1 = "claimed_db ?env ?names (unat (1 :: usize)) sample_worker sample_db2"
  obtain cs1 where cs1: "claim_batch ?env sample_worker ?names 1 sample_db2 = (Inr cs1, ?db1)"
      "list_all2 (\<lambda>row c. decode_claimed row = Inr c) (claimed_rows ?env ?names (unat (1 :: usize)) sample_db2) cs1"
    using claim_batch_Ok [OF sample_inv2 sample_200 sample_worker_ok lim _ sample_claim_texts] sample_claim_env(2)
      sample_readable C1 by auto
  have inv1: "db_inv ?db1" using claim_batch_inv [OF sample_inv2, of ?env sample_worker ?names 1] cs1 by simp
  have db1: "runs ?db1 = [claim_update ?env sample_worker sample_pending, sample_running, sample_completed, sample_task 4]"
    "attempts ?db1 = [sample_open, sample_closed, recorded_attempt ?env sample_worker sample_pending]"
    unfolding claimed_db_def C1 by (simp_all add: sample_db2_def sample_db_def sample_rows)
  have C2: "claim_candidates ?env ?names (unat (1 :: usize)) ?db1 = [sample_task 4]"
    unfolding claim_candidates_def select_ordered_def db1
    by (simp add: claimable_def claim_update_def sample_rows)
  have "claim_env_ok ?env (claim_candidates ?env ?names (unat (1 :: usize)) ?db1) ?db1"
    unfolding C2 claim_env_ok_def db1 by (simp add: claim_expiry_def sample_rows sample_lease_def pg_timestamp_def recorded_token)
  moreover have "claim_readable ?env (claim_candidates ?env ?names (unat (1 :: usize)) ?db1)"
    unfolding C2 by (simp add: claim_readable_def claim_expiry_def sample_rows sample_lease_def chrono_timestamp_def)
  ultimately
  obtain cs2 db2 where cs2: "claim_batch ?env sample_worker ?names 1 ?db1 = (Inr cs2, db2)"
      "list_all2 (\<lambda>row c. decode_claimed row = Inr c) (claimed_rows ?env ?names (unat (1 :: usize)) ?db1) cs2"
    by (rule claim_batch_Ok [OF inv1 sample_200 sample_worker_ok lim _ sample_claim_texts])
  have "length cs1 = 1" "length cs2 = 1"
    using claimed_ids(2) [OF cs1(2)] claimed_ids(2) [OF cs2(2)] sample_inv2 inv1 C1 C2 by (simp_all add: db_inv_def)
  then show ?thesis
    using claimers_disjoint [OF sample_inv2 cs1(1) cs2(1)]
    by (intro exI [of _ cs1] exI [of _ ?db1] exI [of _ cs2] exI [of _ db2] conjI cs1(1) cs2(1)) simp_all
qed

text \<open>
  C38: a cancellation can miss a running task. When a claim commits between the start of the
  cancellation's statement and the moment it gets the row's lock, the statement finds the task running
  but not the attempt the claim has recorded: it changes nothing, the answer is \<open>AlreadyTerminal\<close>, and the
  task runs on under the claimer's lease.
\<close>

theorem cancel_misses_claim:
  assumes "db_inv snap" "claim_batch env w names limit snap = (Inr cs, db)" "c \<in> set cs"
  shows "cancel env' snap id (c_run_id c) db = (Inr CanAlreadyTerminal, db) \<and>
    (\<exists>n m. view_of db (c_run_id c) = TRunning n m (c_lease_token c))"
proof -
  have inv: "db_inv db" using claim_batch_inv [OF assms(1), of env w names limit] assms(2) by simp
  have sch: "schema_ok snap" and sch': "schema_ok db" using assms(1) inv by (simp_all add: db_inv_def)
  from assms(1) have db: "db = claimed_db env names (unat limit) w snap"
      "list_all2 (\<lambda>row c. decode_claimed row = Inr c) (claimed_rows env names (unat limit) snap) cs"
    by (cases rule: claim_batch_cases [of snap env w names limit]; use assms(2) in simp)+
  obtain r where r: "r \<in> set (claim_candidates env names (unat limit) snap)" "c_run_id c = r_id r"
      "c_lease_token c = LeaseToken (env_token env (r_id r))"
    by (rule claimed_decoded [OF db(2) sch assms(3)])
  have view: "view_of db (c_run_id c) = TRunning (r_attempt_count r + 1) (r_max_attempts r) (c_lease_token c)"
    using claimed_view(1) [OF sch _ r(1), of w] sch' r(2,3) db(1) by simp
  let ?a = "recorded_attempt env w r"
  have "?a \<in> set (attempts db)" "a_run_id ?a = c_run_id c" "open_attempt ?a"
    using r(1,2) by (simp_all add: db(1) claimed_db_def recorded_attempt_def open_attempt_def)
  moreover have "\<not> visible snap ?a"
  proof
    assume "visible snap ?a"
    then have "c_lease_token c \<in> a_lease_token ` set (attempts snap)"
      by (auto simp: visible_def recorded_token r(3) rev_image_eqI)
    then show False using claim_batch_tokens(2) [OF assms(1,2)] assms(3) by blast
  qed
  ultimately have "\<not> seen snap (c_run_id c) db" by (auto simp: seen_def)
  with inv have "cancel env' snap id (c_run_id c) db =
      (Inr (if \<exists>x \<in> set (runs db). r_id x = c_run_id c then CanAlreadyTerminal else CanNotFound), db)"
    by (simp add: cancel_def CANCEL_inactive transaction_def Let_def)
  moreover have "\<exists>x \<in> set (runs db). r_id x = c_run_id c"
    using view view_of_absent [of db "c_run_id c"] by auto
  ultimately show ?thesis using view by auto
qed

theorem cancel_misses_claim_witness:
  "\<exists>cs db. claim_batch (sample_env 200) sample_worker [JobName_as_str sample_name] 1 sample_db = (Inr cs, db) \<and>
     (\<exists>c \<in> set cs. cancel (sample_env 200) sample_db id (c_run_id c) db = (Inr CanAlreadyTerminal, db) \<and>
       (\<exists>n m. view_of db (c_run_id c) = TRunning n m (c_lease_token c)))"
proof -
  let ?env = "sample_env 200" and ?names = "[JobName_as_str sample_name]"
  have lim: "uint (1 :: usize) \<le> i64_max" by (simp add: i64_max_def)
  have C: "claim_candidates ?env ?names (unat (1 :: usize)) sample_db = [sample_pending]" by (simp add: sample_candidates)
  have "claim_env_ok ?env (claim_candidates ?env ?names (unat (1 :: usize)) sample_db) sample_db"
    unfolding C by (rule sample_claim_env(1))
  moreover have "claim_readable ?env (claim_candidates ?env ?names (unat (1 :: usize)) sample_db)"
    unfolding C by (rule sample_readable)
  ultimately obtain cs db where cs: "claim_batch ?env sample_worker ?names 1 sample_db = (Inr cs, db)"
      "list_all2 (\<lambda>row c. decode_claimed row = Inr c) (claimed_rows ?env ?names (unat (1 :: usize)) sample_db) cs"
    using claim_batch_Ok [OF sample_inv sample_200 sample_worker_ok lim _ sample_claim_texts] by metis
  have "length cs = 1" using claimed_ids(2) [OF cs(2) sample_schema] C by simp
  then obtain c where "c \<in> set cs" by (cases cs) auto
  then show ?thesis using cancel_misses_claim [OF sample_inv cs(1)] cs(1) by blast
qed

text \<open>
  C10: no task gets stuck. At any time \<open>t\<close> in the range of \<open>timestamptz\<close>, a task that is running, or pending
  and due by \<open>t\<close>, can be driven to a terminal state by workers acting at \<open>t\<close>: an expired lease is recovered,
  a pending task claimed, with the claim returned to its worker, a live lease completed. This needs a lease
  that ends, and a scheduled time that lies, within chrono's range, a payload that reads back (C5: a worker
  never learns of other claims) and an unused token.
\<close>

theorem task_never_stuck:
  assumes "db_inv db" "r \<in> set (runs db)" "r_state r = SRunning \<or> r_state r = SPending \<and> r_available_at r \<le> t"
    and "pg_timestamp t" "chrono_timestamp (t + iv_microseconds (r_lease_duration r))"
    and "chrono_timestamp (r_scheduled_for r)" "LeaseToken u \<notin> a_lease_token ` set (attempts db)"
  shows "\<exists>db' s. (worker_action t)\<^sup>*\<^sup>* db db' \<and> view_of db' (r_id r) = TDone s \<and> (s = SCompleted \<or> s = SFailed)"
proof -
  let ?env = "session t (r_id r) u"
  have sch: "schema_ok db" using assms(1) by (simp add: db_inv_def)
  consider (pending) "r_state r = SPending" "r_available_at r \<le> t"
    | (live) tok where "live_lease ?env (r_id r) tok r" | (expired) "lease_expired ?env r"
    using assms(3) schema_run [OF sch assms(2)]
    by (fastforce simp: run_checks_def state_check_def live_lease_def lease_expired_def split: option.splits)
  then show ?thesis
  proof cases
    case pending
    then show ?thesis using pending_completes [OF assms(1,4,5,2) pending assms(7,6)] by blast
  next
    case (live tok)
    then show ?thesis using running_completes [OF assms(1,4,2) live] by blast
  next
    case expired
    obtain d where d: "worker_action t db d" "db_inv d" "recover_update ?env r \<in> set (runs d)"
        "a_lease_token ` set (attempts d) = a_lease_token ` set (attempts db)"
      by (rule expired_recovers [OF assms(1,4,2) expired])
    let ?r = "recover_update ?env r"
    have upd: "r_id ?r = r_id r" "r_lease_duration ?r = r_lease_duration r" "r_scheduled_for ?r = r_scheduled_for r" by (simp_all add: recover_update_def Let_def)
    show ?thesis
    proof (cases "r_attempt_count r < r_max_attempts r")
      case True
      then have "r_state ?r = SPending" "r_available_at ?r \<le> t" by (simp_all add: recover_update_def)
      then obtain d' where "(worker_action t)\<^sup>*\<^sup>* d d'" "view_of d' (r_id r) = TDone SCompleted"
        using pending_completes [of d t ?r u] d assms(4-7) upd by auto
      moreover from this(1) have "(worker_action t)\<^sup>*\<^sup>* db d'" using d(1) by (simp add: converse_rtranclp_into_rtranclp)
      ultimately show ?thesis by blast
    next
      case False
      then have "view_of d (r_id r) = TDone SFailed"
        using view_of_row [OF _ d(3)] d(2) upd(1) by (simp add: recover_update_def db_inv_def)
      then show ?thesis using d(1) by blast
    qed
  qed
qed

theorem task_never_stuck_witness:
  "\<exists>db' s. (worker_action 500)\<^sup>*\<^sup>* sample_db db' \<and> view_of db' (RunId 2) = TDone s \<and> (s = SCompleted \<or> s = SFailed)"
proof -
  have r: "sample_running \<in> set (runs sample_db)" "r_state sample_running = SRunning \<or> r_state sample_running = SPending \<and> r_available_at sample_running \<le> 500"
    "r_id sample_running = RunId 2"
    by (simp_all add: sample_db_def sample_rows)
  have t: "pg_timestamp 500" "chrono_timestamp (500 + iv_microseconds (r_lease_duration sample_running))"
    "chrono_timestamp (r_scheduled_for sample_running)"
    by (simp_all add: pg_timestamp_def chrono_timestamp_def sample_rows sample_lease_def)
  have "LeaseToken 50 \<notin> a_lease_token ` set (attempts sample_db)" by (simp add: sample_db_def sample_rows)
  from task_never_stuck [OF sample_inv r(1,2) t this] show ?thesis unfolding r(3) .
qed

end
