(* ===== verification/Registry.thy ===== *)
theory Registry
  imports Claim
begin

text \<open>
  \<^verbatim>\<open>src/src/runtime/context.rs\<close>, \<^verbatim>\<open>registry.rs\<close>, \<^verbatim>\<open>health.rs\<close> and \<^verbatim>\<open>builder.rs\<close>: what a handler receives,
  the table of handlers, the worker's health report, and the builder that puts a scheduler together.

  A handler is foreign code: calling it returns a future of type \<open>'f\<close> that the model never looks into.
  The registry's wrapper around it is the scheduler's own, and so is the future it returns when the
  stored payload does not deserialize. \<open>serde_json::from_value\<close> is the parameter \<open>from_value\<close>, and the
  conversion of a name argument (\<open>TryInto<JobName>\<close>, from a string or from a \<open>JobName\<close>) is \<open>try_into\<close>.
\<close>

section \<open>The handler's context\<close>

text \<open>Each dispatch creates one cancellation token; it is named after the lease the dispatch holds.\<close>

datatype CancellationToken = CancellationToken LeaseToken

record JobContext =
  jc_run_id :: RunId
  jc_job_id :: "JobId option"
  jc_job_name :: JobName
  jc_scheduled_for :: timestamp
  jc_attempt :: u32
  jc_lease_token :: LeaseToken
  jc_lease_expires_at :: timestamp
  jc_cancellation :: CancellationToken

section \<open>The registry\<close>

text \<open>A boxed future: the handler's own, or one that is ready with a result.\<close>

datatype 'f BoxFuture = UserFuture 'f | ReadyFuture "JobError + unit"

type_synonym ('v, 'f) Handler = "JobContext \<Rightarrow> 'v \<Rightarrow> 'f BoxFuture"

text \<open>
  The hash map is an association list with distinct keys. Its iteration order is unspecified in Rust
  and only reaches the \<open>ANY($1)\<close> filter of the claim, which does not depend on it.
\<close>

type_synonym ('v, 'f) Registry = "(JobName \<times> ('v, 'f) Handler) list"

definition Registry_new :: "('v, 'f) Registry" where
  "Registry_new = []"

definition Registry_is_empty :: "('v, 'f) Registry \<Rightarrow> bool" where
  "Registry_is_empty reg \<longleftrightarrow> reg = []"

definition Registry_names :: "('v, 'f) Registry \<Rightarrow> rust_string list" where
  "Registry_names reg = map (\<lambda>(n, h). JobName_as_str n) reg"

definition Registry_get :: "JobName \<Rightarrow> ('v, 'f) Registry \<Rightarrow> ('v, 'f) Handler option" where
  "Registry_get name reg = map_of reg name"

text \<open>The closure that \<open>register\<close> stores.\<close>

definition boxed_handler ::
    "('v \<Rightarrow> rust_string + 'a) \<Rightarrow> (JobContext \<Rightarrow> 'a \<Rightarrow> 'f) \<Rightarrow> ('v, 'f) Handler" where
  "boxed_handler from_value handler ctx v =
     (case from_value v of
        Inr args \<Rightarrow> UserFuture (handler ctx args)
      | Inl e \<Rightarrow> ReadyFuture (Inl (JobError_from e)))"

definition Registry_register ::
    "('v \<Rightarrow> rust_string + 'a) \<Rightarrow> JobName \<Rightarrow> (JobContext \<Rightarrow> 'a \<Rightarrow> 'f) \<Rightarrow> ('v, 'f) Registry \<Rightarrow>
       DuplicateJobName + ('v, 'f) Registry" where
  "Registry_register from_value name handler reg =
     (if name \<in> fst ` set reg then Inl (DuplicateJobName name)
      else Inr ((name, boxed_handler from_value handler) # reg))"

section \<open>Health\<close>

datatype HealthStatus = Starting | Healthy | Degraded | Stopped

record WorkerHealth =
  status :: HealthStatus
  consecutive_failures :: u64
  last_error :: "rust_string option"

definition WorkerHealth_default :: WorkerHealth where
  "WorkerHealth_default = \<lparr>status = Starting, consecutive_failures = 0, last_error = None\<rparr>"

section \<open>The builder\<close>

definition DEFAULT_MAX_CONCURRENCY :: usize where
  "DEFAULT_MAX_CONCURRENCY = 16"

record Config_record =
  cfg_worker_id :: WorkerId
  cfg_poll_interval :: duration
  cfg_reaper_interval :: duration
  cfg_shutdown_timeout :: duration
  cfg_max_concurrency :: usize

record ('p, 'v, 'f) SchedulerBuilder =
  b_pool :: 'p
  b_registry :: "('v, 'f) Registry"
  b_worker_id :: WorkerId
  b_poll_interval :: duration
  b_reaper_interval :: duration
  b_shutdown_timeout :: duration
  b_max_concurrency :: usize

record ('p, 'v, 'f) Scheduler =
  s_pool :: 'p
  s_registry :: "('v, 'f) Registry"
  s_config :: Config_record
  s_health :: WorkerHealth

definition SchedulerBuilder_new :: "'p \<Rightarrow> WorkerId \<Rightarrow> ('p, 'v, 'f) SchedulerBuilder" where
  "SchedulerBuilder_new pool worker_id =
     \<lparr>b_pool = pool, b_registry = Registry_new, b_worker_id = worker_id,
      b_poll_interval = from_secs 1, b_reaper_interval = from_secs 20,
      b_shutdown_timeout = from_secs 25, b_max_concurrency = DEFAULT_MAX_CONCURRENCY\<rparr>"

definition set_poll_interval :: "duration \<Rightarrow> ('p, 'v, 'f) SchedulerBuilder \<Rightarrow> ('p, 'v, 'f) SchedulerBuilder" where
  "set_poll_interval d b = b\<lparr>b_poll_interval := d\<rparr>"

definition set_reaper_interval :: "duration \<Rightarrow> ('p, 'v, 'f) SchedulerBuilder \<Rightarrow> ('p, 'v, 'f) SchedulerBuilder" where
  "set_reaper_interval d b = b\<lparr>b_reaper_interval := d\<rparr>"

definition set_shutdown_timeout :: "duration \<Rightarrow> ('p, 'v, 'f) SchedulerBuilder \<Rightarrow> ('p, 'v, 'f) SchedulerBuilder" where
  "set_shutdown_timeout d b = b\<lparr>b_shutdown_timeout := d\<rparr>"

definition set_max_concurrency :: "usize \<Rightarrow> ('p, 'v, 'f) SchedulerBuilder \<Rightarrow> ('p, 'v, 'f) SchedulerBuilder" where
  "set_max_concurrency n b = b\<lparr>b_max_concurrency := n\<rparr>"

definition SchedulerBuilder_register ::
    "('n \<Rightarrow> IdentifierError + JobName) \<Rightarrow> ('v \<Rightarrow> rust_string + 'a) \<Rightarrow> 'n \<Rightarrow> (JobContext \<Rightarrow> 'a \<Rightarrow> 'f) \<Rightarrow>
       ('p, 'v, 'f) SchedulerBuilder \<Rightarrow> RegisterError + ('p, 'v, 'f) SchedulerBuilder" where
  "SchedulerBuilder_register try_into from_value name handler b =
     and_then (map_err RegisterName (try_into name)) (\<lambda>n.
     and_then (map_err RegisterDuplicate (Registry_register from_value n handler (b_registry b))) (\<lambda>reg.
     Inr (b\<lparr>b_registry := reg\<rparr>)))"

definition register_task ::
    "('v \<Rightarrow> rust_string + 'a) \<Rightarrow> rust_string \<Rightarrow> (JobContext \<Rightarrow> 'a \<Rightarrow> 'f) \<Rightarrow>
       ('p, 'v, 'f) SchedulerBuilder \<Rightarrow> RegisterError + ('p, 'v, 'f) SchedulerBuilder" where
  "register_task from_value NAME handler b =
     SchedulerBuilder_register JobName_try_from from_value NAME handler b"

definition build :: "('p, 'v, 'f) SchedulerBuilder \<Rightarrow> SchedulerError + ('p, 'v, 'f) Scheduler" where
  "build b =
     (if Registry_is_empty (b_registry b) then Inl (Config ''at least one handler must be registered'')
      else if duration_is_zero (b_poll_interval b) then Inl (Config ''poll_interval must be greater than zero'')
      else if duration_is_zero (b_reaper_interval b) then Inl (Config ''reaper_interval must be greater than zero'')
      else Inr
        \<lparr>s_pool = b_pool b, s_registry = b_registry b,
         s_config =
           \<lparr>cfg_worker_id = b_worker_id b, cfg_poll_interval = b_poll_interval b,
            cfg_reaper_interval = b_reaper_interval b, cfg_shutdown_timeout = b_shutdown_timeout b,
            cfg_max_concurrency = b_max_concurrency b\<rparr>,
         s_health = WorkerHealth_default\<rparr>)"

definition Scheduler_builder :: "'p \<Rightarrow> WorkerId \<Rightarrow> ('p, 'v, 'f) SchedulerBuilder" where
  "Scheduler_builder pool worker_id = SchedulerBuilder_new pool worker_id"

definition health :: "('p, 'v, 'f) Scheduler \<Rightarrow> WorkerHealth" where
  "health s = s_health s"

section \<open>The registry as a finite map\<close>

text \<open>
  What the worker relies on: a name that the claim filter asks for has a handler, and registering
  never replaces one.
\<close>

lemma names_iff_get:
  "JobName_as_str n \<in> set (Registry_names reg) \<longleftrightarrow> (\<exists>h. Registry_get n reg = Some h)"
proof -
  have inj: "JobName_as_str a = JobName_as_str b \<longleftrightarrow> a = b" for a b
    by (cases a; cases b) simp
  have "JobName_as_str n \<in> set (Registry_names reg) \<longleftrightarrow> n \<in> fst ` set reg"
    by (force simp: Registry_names_def inj)
  also have "\<dots> \<longleftrightarrow> (\<exists>h. map_of reg n = Some h)"
    by (metis domIff dom_map_of_conv_image_fst not_None_eq)
  finally show ?thesis by (simp add: Registry_get_def)
qed

lemma register_keeps:
  assumes "Registry_register from_value name handler reg = Inr reg'"
  shows "Registry_get n reg' = (if n = name then Some (boxed_handler from_value handler) else Registry_get n reg)"
    and "Registry_get name reg = None" and "distinct (map fst reg) \<Longrightarrow> distinct (map fst reg')"
  using assms
  by (auto simp: Registry_register_def Registry_get_def map_of_eq_None_iff split: if_splits)

text \<open>The claim depends on the set of names only, so the iteration order of the hash map is irrelevant.\<close>

lemma claim_batch_names_order:
  assumes "set names = set names'"
  shows "claim_batch env w names limit db = claim_batch env w names' limit db"
proof -
  have "CLAIM_BATCH env names n w db = CLAIM_BATCH env names' n w db" for n
    using assms by (simp add: CLAIM_BATCH_def bind_texts_def claim_candidates_def claimable_def)
  then show ?thesis by (cases "i64_try_from_usize limit") (simp_all add: claim_batch_def)
qed

section \<open>Builders\<close>

text \<open>
  A handler over any argument type is a handler over the stored payload that deserializes for itself, so
  the rules below need no other argument type.
\<close>

lemma boxed_handler_payload:
  "boxed_handler from_value handler =
     boxed_handler (\<lambda>v. map_ok (\<lambda>_. v) (from_value v)) (\<lambda>ctx v. handler ctx (projr (from_value v)))"
  by (intro ext) (auto simp: boxed_handler_def split: sum.splits)

text \<open>The builders that the public interface can produce.\<close>

inductive configured :: "('p, 'v, 'f) SchedulerBuilder \<Rightarrow> bool" where
  new: "configured (Scheduler_builder pool worker_id)"
| poll_interval: "configured b \<Longrightarrow> configured (set_poll_interval d b)"
| reaper_interval: "configured b \<Longrightarrow> configured (set_reaper_interval d b)"
| shutdown_timeout: "configured b \<Longrightarrow> configured (set_shutdown_timeout d b)"
| max_concurrency: "configured b \<Longrightarrow> n \<noteq> 0 \<Longrightarrow> configured (set_max_concurrency n b)"
| register_str: "configured b \<Longrightarrow>
    SchedulerBuilder_register JobName_try_from (from_value :: 'v \<Rightarrow> rust_string + 'v) s handler b = Inr b' \<Longrightarrow> configured b'"
| register_name: "configured b \<Longrightarrow> JobName_try_from s = Inr name \<Longrightarrow>
    SchedulerBuilder_register Inr (from_value :: 'v \<Rightarrow> rust_string + 'v) name handler b = Inr b' \<Longrightarrow> configured b'"
| register_task: "configured b \<Longrightarrow> register_task (from_value :: 'v \<Rightarrow> rust_string + 'v) NAME handler b = Inr b' \<Longrightarrow> configured b'"

lemmas setter_defs = set_poll_interval_def set_reaper_interval_def set_shutdown_timeout_def
  set_max_concurrency_def

definition registry_ok :: "('v, 'f) Registry \<Rightarrow> bool" where
  "registry_ok reg \<longleftrightarrow> distinct (map fst reg) \<and> (\<forall>(n, h) \<in> set reg. identifier_ok (JobName_as_str n))"

lemma registry_ok_names:
  assumes ok: "registry_ok reg"
  shows "distinct (Registry_names reg)"
    and "n \<in> set (Registry_names reg) \<longleftrightarrow>
      (\<exists>name h. JobName_try_from n = Inr name \<and> Registry_get name reg = Some h)"
proof -
  have names: "Registry_names reg = map JobName_as_str (map fst reg)"
    by (simp add: Registry_names_def case_prod_beta)
  have "inj JobName_as_str" by (simp add: inj_def job_name.as_str_inj)
  then show "distinct (Registry_names reg)"
    unfolding names distinct_map [of JobName_as_str] using ok
    by (auto simp: registry_ok_def intro: inj_on_subset)
  show "n \<in> set (Registry_names reg) \<longleftrightarrow>
      (\<exists>name h. JobName_try_from n = Inr name \<and> Registry_get name reg = Some h)"
  proof
    assume n: "n \<in> set (Registry_names reg)"
    then obtain name h where m: "(name, h) \<in> set reg" "n = JobName_as_str name" unfolding names by auto
    then have "JobName_try_from n = Inr name" using ok by (auto simp: registry_ok_def job_name.roundtrip)
    then show "\<exists>name h. JobName_try_from n = Inr name \<and> Registry_get name reg = Some h"
      using n m(2) names_iff_get by blast
  qed (metis job_name.try_from_iff names_iff_get)
qed

lemma register_Inr:
  assumes "SchedulerBuilder_register try_into from_value x handler b = Inr b'"
  obtains n reg where "try_into x = Inr n" "Registry_register from_value n handler (b_registry b) = Inr reg"
    "b' = b\<lparr>b_registry := reg\<rparr>"
  using assms by (auto simp: SchedulerBuilder_register_def and_then_Inr_iff)

lemma registry_ok_register:
  assumes "registry_ok reg" "Registry_register from_value n handler reg = Inr reg'" "identifier_ok (JobName_as_str n)"
  shows "registry_ok reg'"
  using assms by (auto simp: registry_ok_def Registry_register_def split: if_splits)

lemma configured_register:
  assumes "SchedulerBuilder_register try_into from_value x handler b = Inr b'"
    and "\<And>n. try_into x = Inr n \<Longrightarrow> identifier_ok (JobName_as_str n)"
    and "registry_ok (b_registry b) \<and> b_max_concurrency b \<noteq> 0"
  shows "registry_ok (b_registry b') \<and> b_max_concurrency b' \<noteq> 0"
  using assms by (elim register_Inr) (auto intro: registry_ok_register)

lemma configured_ok: "configured b \<Longrightarrow> registry_ok (b_registry b) \<and> b_max_concurrency b \<noteq> 0"
proof (induction rule: configured.induct)
  case (new pool worker_id)
  show ?case
    by (simp add: Scheduler_builder_def SchedulerBuilder_new_def Registry_new_def registry_ok_def
        DEFAULT_MAX_CONCURRENCY_def)
next
  case (register_str b from_value s handler b')
  then show ?case using configured_register job_name.try_from_iff by metis
next
  case (register_name b s name from_value handler b')
  then show ?case using configured_register job_name.try_from_iff by (metis sum.inject(2))
next
  case (register_task b from_value NAME handler b')
  then show ?case unfolding register_task_def using configured_register job_name.try_from_iff by metis
qed (simp_all add: setter_defs)

section \<open>Properties\<close>

text \<open>
  C35: what a built scheduler guarantees. From any builder the public interface can produce, \<open>build\<close>
  succeeds exactly when a handler is registered and both intervals are positive (\<open>tokio::time::interval\<close>
  panics on zero), and the scheduler has a non-zero concurrency, pairwise distinct valid handler names,
  a handler for each of them and for no other name, and health \<open>Starting\<close>.
\<close>

theorem built_scheduler_ok:
  assumes "configured b"
  shows "((\<exists>s. build b = Inr s) \<longleftrightarrow>
      b_registry b \<noteq> [] \<and> 0 < duration_total_nanos (b_poll_interval b) \<and>
      0 < duration_total_nanos (b_reaper_interval b)) \<and>
    (\<forall>s. build b = Inr s \<longrightarrow>
      cfg_max_concurrency (s_config s) \<noteq> 0 \<and> status (health s) = Starting \<and>
      0 < duration_total_nanos (cfg_poll_interval (s_config s)) \<and>
      0 < duration_total_nanos (cfg_reaper_interval (s_config s)) \<and>
      Registry_names (s_registry s) \<noteq> [] \<and> distinct (Registry_names (s_registry s)) \<and>
      (\<forall>n. n \<in> set (Registry_names (s_registry s)) \<longleftrightarrow>
         (\<exists>name h. JobName_try_from n = Inr name \<and> Registry_get name (s_registry s) = Some h)))"
proof (intro conjI allI impI)
  have ok: "registry_ok (b_registry b)" "b_max_concurrency b \<noteq> 0" using configured_ok [OF assms] by auto
  show "(\<exists>s. build b = Inr s) \<longleftrightarrow> b_registry b \<noteq> [] \<and> 0 < duration_total_nanos (b_poll_interval b) \<and>
      0 < duration_total_nanos (b_reaper_interval b)"
    by (simp add: build_def Registry_is_empty_def duration_is_zero_iff)
  fix s assume s: "build b = Inr s"
  then have eqs: "s_registry s = b_registry b" "cfg_max_concurrency (s_config s) = b_max_concurrency b"
    "cfg_poll_interval (s_config s) = b_poll_interval b" "cfg_reaper_interval (s_config s) = b_reaper_interval b"
    "b_registry b \<noteq> []" "status (health s) = Starting"
    "0 < duration_total_nanos (b_poll_interval b)" "0 < duration_total_nanos (b_reaper_interval b)"
    by (auto simp: build_def Registry_is_empty_def duration_is_zero_iff health_def WorkerHealth_default_def
        split: if_splits)
  show "cfg_max_concurrency (s_config s) \<noteq> 0" "status (health s) = Starting"
    "0 < duration_total_nanos (cfg_poll_interval (s_config s))"
    "0 < duration_total_nanos (cfg_reaper_interval (s_config s))" "Registry_names (s_registry s) \<noteq> []"
    using eqs ok by (simp_all add: Registry_names_def)
  show "distinct (Registry_names (s_registry s))" unfolding eqs by (rule registry_ok_names(1) [OF ok(1)])
  show "n \<in> set (Registry_names (s_registry s)) \<longleftrightarrow>
      (\<exists>name h. JobName_try_from n = Inr name \<and> Registry_get name (s_registry s) = Some h)" for n
    unfolding eqs by (rule registry_ok_names(2) [OF ok(1)])
qed

text \<open>A builder with one handler, and the scheduler it builds.\<close>

definition sample_builder :: "(unit, nat, unit) SchedulerBuilder" where
  "sample_builder = (Scheduler_builder () sample_worker)
     \<lparr>b_registry := [(sample_name, boxed_handler (\<lambda>v. Inr v) (\<lambda>ctx (v :: nat). ()))]\<rparr>"

theorem built_scheduler_ok_witness: "\<exists>s. build sample_builder = Inr s \<and> cfg_max_concurrency (s_config s) \<noteq> 0"
proof -
  have "identifier_ok (JobName_as_str sample_name)"
    by (simp add: sample_name_def identifier_ok_def MAX_IDENTIFIER_LEN_def is_whitespace_def)
  then have "SchedulerBuilder_register JobName_try_from (\<lambda>v. Inr v) (JobName_as_str sample_name)
      (\<lambda>ctx (v :: nat). ()) (Scheduler_builder () sample_worker) = Inr sample_builder"
    by (simp add: SchedulerBuilder_register_def job_name.roundtrip Registry_register_def Scheduler_builder_def
        SchedulerBuilder_new_def Registry_new_def sample_builder_def)
  then have c: "configured sample_builder" by (rule configured.register_str [OF configured.new])
  have "b_registry sample_builder \<noteq> []" "0 < duration_total_nanos (b_poll_interval sample_builder)"
    "0 < duration_total_nanos (b_reaper_interval sample_builder)"
    by (simp_all add: sample_builder_def Scheduler_builder_def SchedulerBuilder_new_def duration_total_nanos_def from_secs_def)
  then show ?thesis using built_scheduler_ok [OF c] by blast
qed

end
