(* ===== verification/Metrics.thy ===== *)
theory Metrics
  imports Rust_Std
begin

text \<open>
  \<^verbatim>\<open>src/src/metrics.rs\<close>: the counters. With the feature \<open>metrics\<close> each of the six names has a \<open>OnceLock\<close> that
  holds the handle of its counter from the first use on; without it the calls do nothing. The crate
  \<open>gnort\<close> is a parameter: a record of the operations used, over a type of registries and one of handles.
\<close>

section \<open>Names\<close>

definition RUNS_MATERIALIZED :: string where "RUNS_MATERIALIZED = ''pg_task_scheduler.runs.materialized''"
definition RUNS_CLAIMED :: string where "RUNS_CLAIMED = ''pg_task_scheduler.runs.claimed''"
definition RUNS_COMPLETED :: string where "RUNS_COMPLETED = ''pg_task_scheduler.runs.completed''"
definition RUNS_FAILED :: string where "RUNS_FAILED = ''pg_task_scheduler.runs.failed''"
definition RUNS_REAPED :: string where "RUNS_REAPED = ''pg_task_scheduler.runs.reaped''"
definition RUNS_REQUEUED :: string where "RUNS_REQUEUED = ''pg_task_scheduler.runs.requeued''"

lemmas metric_names = RUNS_MATERIALIZED_def RUNS_CLAIMED_def RUNS_COMPLETED_def RUNS_FAILED_def
  RUNS_REAPED_def RUNS_REQUEUED_def

section \<open>Counters\<close>

text \<open>
  \<open>register_count\<close> of the global registry, \<open>Count::default\<close>, \<open>Count::fetch_add\<close> and \<open>Count::increment\<close>.
\<close>

record ('g, 'h) gnort =
  register_count :: "string \<Rightarrow> 'g \<Rightarrow> (rust_string + 'h) \<times> 'g"
  default_count :: "'g \<Rightarrow> 'h \<times> 'g"
  fetch_add :: "'h \<Rightarrow> usize \<Rightarrow> 'g \<Rightarrow> 'g"
  increment :: "'h \<Rightarrow> 'g \<Rightarrow> 'g"

text \<open>The statics of \<open>get_or_register\<close>, one \<open>OnceLock\<close> per known name, and the counters it has leaked.\<close>

datatype once_lock = M0 | M1 | M2 | M3 | M4 | M5

record ('g, 'h) statics =
  registry :: 'g
  locks :: "once_lock \<Rightarrow> 'h option"
  leaked :: "'h list"

definition register_or_default :: "('g, 'h) gnort \<Rightarrow> string \<Rightarrow> 'g \<Rightarrow> 'h \<times> 'g" where
  "register_or_default gn name g =
     (case register_count gn name g of
        (Inr h, g') \<Rightarrow> (h, g')
      | (Inl e, g') \<Rightarrow> default_count gn g')"

definition named_lock :: "('g, 'h) gnort \<Rightarrow> string \<Rightarrow> once_lock \<Rightarrow> ('g, 'h) statics \<Rightarrow> 'h \<times> ('g, 'h) statics" where
  "named_lock gn name lock p =
     (case locks p lock of
        Some h \<Rightarrow> (h, p)
      | None \<Rightarrow>
          (case register_or_default gn name (registry p) of
             (h, g) \<Rightarrow> (h, p\<lparr>registry := g, locks := (locks p)(lock := Some h)\<rparr>)))"

definition get_or_register :: "('g, 'h) gnort \<Rightarrow> string \<Rightarrow> ('g, 'h) statics \<Rightarrow> 'h \<times> ('g, 'h) statics" where
  "get_or_register gn name p =
     (if name = RUNS_MATERIALIZED then named_lock gn name M0 p
      else if name = RUNS_CLAIMED then named_lock gn name M1 p
      else if name = RUNS_COMPLETED then named_lock gn name M2 p
      else if name = RUNS_FAILED then named_lock gn name M3 p
      else if name = RUNS_REAPED then named_lock gn name M4 p
      else if name = RUNS_REQUEUED then named_lock gn name M5 p
      else (case register_or_default gn name (registry p) of
              (h, g) \<Rightarrow> (h, p\<lparr>registry := g, leaked := h # leaked p\<rparr>)))"

definition incr :: "('g, 'h) gnort \<Rightarrow> string \<Rightarrow> ('g, 'h) statics \<Rightarrow> ('g, 'h) statics" where
  "incr gn name p =
     (case get_or_register gn name p of (h, p') \<Rightarrow> p'\<lparr>registry := increment gn h (registry p')\<rparr>)"

text \<open>\<open>usize\<close> has 64 bits, so the conversion from \<open>u64\<close> always succeeds.\<close>

definition usize_try_from_u64 :: "u64 \<Rightarrow> usize option" where
  "usize_try_from_u64 n = (if uint n \<le> uint (- 1 :: usize) then Some (ucast n) else None)"

definition incr_by :: "('g, 'h) gnort \<Rightarrow> string \<Rightarrow> u64 \<Rightarrow> ('g, 'h) statics \<Rightarrow> ('g, 'h) statics" where
  "incr_by gn name n p =
     (let n_usize = (case usize_try_from_u64 n of Some k \<Rightarrow> k | None \<Rightarrow> - 1)
      in case get_or_register gn name p of
           (h, p') \<Rightarrow> p'\<lparr>registry := fetch_add gn h n_usize (registry p')\<rparr>)"

text \<open>The implementation without the feature.\<close>

definition noop_incr :: "string \<Rightarrow> 'p \<Rightarrow> 'p" where
  "noop_incr name p = p"

definition noop_incr_by :: "string \<Rightarrow> u64 \<Rightarrow> 'p \<Rightarrow> 'p" where
  "noop_incr_by name n p = p"

section \<open>Calls\<close>

text \<open>The calls a component makes, in order; the worker keeps them as a log.\<close>

datatype metric_call = Incr (metric_name: string) | Incr_by (metric_name: string) u64

primrec perform :: "('g, 'h) gnort \<Rightarrow> metric_call \<Rightarrow> ('g, 'h) statics \<Rightarrow> ('g, 'h) statics" where
  "perform gn (Incr name) p = incr gn name p"
| "perform gn (Incr_by name n) p = incr_by gn name n p"

definition perform_all :: "('g, 'h) gnort \<Rightarrow> metric_call list \<Rightarrow> ('g, 'h) statics \<Rightarrow> ('g, 'h) statics" where
  "perform_all gn calls p = fold (perform gn) calls p"

primrec amount :: "metric_call \<Rightarrow> u64" where
  "amount (Incr name) = 1"
| "amount (Incr_by name n) = n"

definition total :: "string \<Rightarrow> metric_call list \<Rightarrow> u64" where
  "total name calls = sum_list (map amount (filter (\<lambda>c. metric_name c = name) calls))"

lemma total_simps [simp]:
  "total name [] = 0" "total name (c # cs) = (if metric_name c = name then amount c else 0) + total name cs"
  "total name (cs @ ds) = total name cs + total name ds"
  by (simp_all add: total_def)

section \<open>Lazily registered counters\<close>

text \<open>
  What \<open>gnort\<close> documents. \<open>counter\<close> reads a named counter of a registry, and \<open>feeds\<close> names the counter that a
  handle belongs to. Registering returns a handle to the counter of the name, whether new or not, and
  changes no counter; a default handle belongs to no registered counter; adding wraps around.
\<close>

definition gnort_ok :: "('h \<Rightarrow> string option) \<Rightarrow> (string \<Rightarrow> 'g \<Rightarrow> usize) \<Rightarrow> ('g, 'h) gnort \<Rightarrow> bool" where
  "gnort_ok feeds counter gn \<longleftrightarrow>
     (\<forall>name g r g'. register_count gn name g = (r, g') \<longrightarrow>
        (\<forall>n. counter n g' = counter n g) \<and> (\<forall>h. r = Inr h \<longrightarrow> feeds h = Some name)) \<and>
     (\<forall>g h g'. default_count gn g = (h, g') \<longrightarrow> (\<forall>n. counter n g' = counter n g) \<and> feeds h = None) \<and>
     (\<forall>h k g n. counter n (fetch_add gn h k g) = counter n g + (if feeds h = Some n then k else 0)) \<and>
     (\<forall>h g n. counter n (increment gn h g) = counter n g + (if feeds h = Some n then 1 else 0))"

definition known :: "(string \<times> once_lock) list" where
  "known = [(RUNS_MATERIALIZED, M0), (RUNS_CLAIMED, M1), (RUNS_COMPLETED, M2), (RUNS_FAILED, M3),
     (RUNS_REAPED, M4), (RUNS_REQUEUED, M5)]"

lemma known_iff:
  "(name, lock) \<in> set known \<longleftrightarrow>
     name = (case lock of M0 \<Rightarrow> RUNS_MATERIALIZED | M1 \<Rightarrow> RUNS_CLAIMED | M2 \<Rightarrow> RUNS_COMPLETED | M3 \<Rightarrow> RUNS_FAILED
       | M4 \<Rightarrow> RUNS_REAPED | M5 \<Rightarrow> RUNS_REQUEUED)"
  by (cases lock) (auto simp: known_def)

lemma get_or_register_known:
  assumes "(name, lock) \<in> set known"
  shows "get_or_register gn name p = named_lock gn name lock p"
  using assms unfolding known_iff by (cases lock) (simp_all add: get_or_register_def, simp_all add: metric_names)

lemma get_or_register_unknown:
  assumes "name \<notin> fst ` set known"
  shows "get_or_register gn name p =
    (case register_or_default gn name (registry p) of (h, g) \<Rightarrow> (h, p\<lparr>registry := g, leaked := h # leaked p\<rparr>))"
  using assms by (auto simp: get_or_register_def known_def)

lemma known_inj: "(n, l) \<in> set known \<Longrightarrow> (m, l) \<in> set known \<Longrightarrow> n = m"
  by (simp add: known_iff)

lemma known_fun: "(n, l) \<in> set known \<Longrightarrow> (n, k) \<in> set known \<Longrightarrow> l = k"
  unfolding known_iff by (cases l; cases k; simp) (simp_all add: metric_names)


text \<open>A lock, once set, keeps its handle, and the handle belongs to the lock's own counter or to none.\<close>

definition locks_ok :: "('h \<Rightarrow> string option) \<Rightarrow> ('g, 'h) statics \<Rightarrow> bool" where
  "locks_ok feeds p \<longleftrightarrow>
     (\<forall>(name, lock) \<in> set known. \<forall>h. locks p lock = Some h \<longrightarrow> feeds h = None \<or> feeds h = Some name)"

lemma gnort_okD:
  assumes "gnort_ok feeds counter gn"
  shows "register_count gn name g = (r, g') \<Longrightarrow> counter n g' = counter n g"
    and "register_count gn name g = (Inr h, g') \<Longrightarrow> feeds h = Some name"
    and "default_count gn g = (d, g') \<Longrightarrow> counter n g' = counter n g"
    and "default_count gn g = (d, g') \<Longrightarrow> feeds d = None"
    and "counter n (fetch_add gn h k g) = counter n g + (if feeds h = Some n then k else 0)"
    and "counter n (increment gn h g) = counter n g + (if feeds h = Some n then 1 else 0)"
  using assms unfolding gnort_ok_def by blast+

lemma register_or_default_eq:
  assumes "gnort_ok feeds counter gn" "register_or_default gn name g = (h, g')"
  shows "counter n g' = counter n g" "feeds h = Some name \<or> feeds h = None"
    "feeds h = Some name \<longleftrightarrow> (\<exists>k. fst (register_count gn name g) = Inr k)"
  using assms(2) gnort_okD [OF assms(1)]
  by (auto simp: register_or_default_def split: prod.splits sum.splits)

lemma perform_eq:
  "perform gn c p = (case get_or_register gn (metric_name c) p of (h, p') \<Rightarrow>
     p'\<lparr>registry := (case c of Incr n \<Rightarrow> increment gn h (registry p') | Incr_by n k \<Rightarrow> fetch_add gn h k (registry p'))\<rparr>)"
proof -
  have "uint (n :: u64) \<le> uint (- 1 :: usize)" for n
    using word_le_def [of n "- 1 :: u64"] by simp
  then show ?thesis by (cases c) (simp_all add: incr_def incr_by_def usize_try_from_u64_def)
qed

lemma counter_added:
  assumes "gnort_ok feeds counter gn"
  shows "counter n (case c of Incr m \<Rightarrow> increment gn h g | Incr_by m k \<Rightarrow> fetch_add gn h k g) =
    counter n g + (if feeds h = Some n then amount c else 0)"
  using gnort_okD(5,6) [OF assms] by (cases c) simp_all

lemma known_same: "(n, l) \<in> set known \<Longrightarrow> (m, k) \<in> set known \<Longrightarrow> l = k \<longleftrightarrow> n = m"
  using known_inj known_fun by blast

text \<open>A call of \<open>get_or_register\<close>: the handle it returns, and what becomes of the locks.\<close>

lemma named_lock_eq:
  assumes gn: "gnort_ok feeds counter gn" and ok: "locks_ok feeds p" and m: "(m, l) \<in> set known"
    and get: "get_or_register gn m p = (h, p')"
  shows "counter n (registry p') = counter n (registry p)" "feeds h = Some m \<or> feeds h = None"
    "locks p' = (locks p)(l := Some h)" "locks p l = Some k \<Longrightarrow> h = k"
    "locks p l = None \<Longrightarrow> feeds h = Some m \<longleftrightarrow> (\<exists>k. fst (register_count gn m (registry p)) = Inr k)"
proof -
  have named: "named_lock gn m l p = (h, p')" using get get_or_register_known [OF m, of gn p] by simp
  have "feeds x = Some m \<or> feeds x = None" if "locks p l = Some x" for x
    using ok m that by (auto simp: locks_ok_def)
  then show "counter n (registry p') = counter n (registry p)" "feeds h = Some m \<or> feeds h = None"
    "locks p' = (locks p)(l := Some h)" "locks p l = Some k \<Longrightarrow> h = k"
    "locks p l = None \<Longrightarrow> feeds h = Some m \<longleftrightarrow> (\<exists>k. fst (register_count gn m (registry p)) = Inr k)"
    using named register_or_default_eq [OF gn]
    by (auto simp: named_lock_def split: option.splits prod.splits)
qed

lemma get_or_register_eq:
  assumes gn: "gnort_ok feeds counter gn" and ok: "locks_ok feeds p" and get: "get_or_register gn m p = (h, p')"
  shows "counter n (registry p') = counter n (registry p)" "feeds h = Some m \<or> feeds h = None" "locks_ok feeds p'"
    "(name, lock) \<in> set known \<Longrightarrow> locks p' lock = (if name = m then Some h else locks p lock)"
proof -
  have *: "(\<forall>n. counter n (registry p') = counter n (registry p)) \<and> (feeds h = Some m \<or> feeds h = None) \<and>
    (\<forall>(name, lock) \<in> set known. locks p' lock = (if name = m then Some h else locks p lock))"
  proof (cases "m \<in> fst ` set known")
    case True
    then obtain l where l: "(m, l) \<in> set known" by force
    note eqs = named_lock_eq [OF gn ok l get]
    have "\<forall>(name, lock) \<in> set known. locks p' lock = (if name = m then Some h else locks p lock)"
      using eqs(3) known_same [OF _ l] by fastforce
    then show ?thesis using eqs(1,2) by blast
  next
    case False
    then have other: "name \<noteq> m" if "(name, lock) \<in> set known" for name lock using that by force
    obtain k g where reg: "register_or_default gn m (registry p) = (k, g)" by fastforce
    then have "h = k" "p' = p\<lparr>registry := g, leaked := k # leaked p\<rparr>"
      using get get_or_register_unknown [OF False, of gn p] by auto
    then show ?thesis using register_or_default_eq [OF gn reg] other by auto
  qed
  then show "counter n (registry p') = counter n (registry p)" "feeds h = Some m \<or> feeds h = None"
    "(name, lock) \<in> set known \<Longrightarrow> locks p' lock = (if name = m then Some h else locks p lock)"
    by auto
  show "locks_ok feeds p'"
    unfolding locks_ok_def
  proof (clarify, goal_cases)
    case (1 name lock k)
    then show ?case using * ok by (fastforce simp: locks_ok_def split: if_splits)
  qed
qed

definition attached :: "('h \<Rightarrow> string option) \<Rightarrow> string \<Rightarrow> once_lock \<Rightarrow> ('g, 'h) statics \<Rightarrow> bool" where
  "attached feeds name lock p \<longleftrightarrow> (\<exists>h. locks p lock = Some h \<and> feeds h = Some name)"

lemma perform_step:
  assumes gn: "gnort_ok feeds counter gn" and ok: "locks_ok feeds p" and n: "(name, lock) \<in> set known"
  shows "locks_ok feeds (perform gn c p)"
    and "locks p lock = Some h \<Longrightarrow> locks (perform gn c p) lock = Some h"
    and "locks (perform gn c p) lock = None \<longleftrightarrow> locks p lock = None \<and> metric_name c \<noteq> name"
    and "counter name (registry (perform gn c p)) = counter name (registry p) +
      (if metric_name c = name \<and> attached feeds name lock (perform gn c p) then amount c else 0)"
    and "locks p lock = None \<Longrightarrow> metric_name c = name \<Longrightarrow>
      attached feeds name lock (perform gn c p) \<longleftrightarrow> (\<exists>k. fst (register_count gn name (registry p)) = Inr k)"
proof -
  obtain k p' where get: "get_or_register gn (metric_name c) p = (k, p')" by fastforce
  note eqs = get_or_register_eq [OF gn ok get]
  have l: "locks (perform gn c p) = locks p'" by (simp add: perform_eq get)
  show "locks_ok feeds (perform gn c p)" using eqs(3) l by (simp add: locks_ok_def)
  show "locks p lock = Some h \<Longrightarrow> locks (perform gn c p) lock = Some h"
    using eqs(4) [OF n] named_lock_eq(4) [OF gn ok _ get] n l by auto
  show "locks (perform gn c p) lock = None \<longleftrightarrow> locks p lock = None \<and> metric_name c \<noteq> name"
    using eqs(4) [OF n] l by auto
  show "counter name (registry (perform gn c p)) = counter name (registry p) +
      (if metric_name c = name \<and> attached feeds name lock (perform gn c p) then amount c else 0)"
    using eqs(1) [of name] eqs(2) eqs(4) [OF n] l
    by (auto simp: perform_eq get counter_added [OF gn] attached_def)
  show "attached feeds name lock (perform gn c p) \<longleftrightarrow> (\<exists>k. fst (register_count gn name (registry p)) = Inr k)"
    if "locks p lock = None" "metric_name c = name"
    using eqs(4) [OF n] named_lock_eq(5) [OF gn ok _ get] n l that by (auto simp: attached_def)
qed

lemma perform_all_simps [simp]:
  "perform_all gn [] p = p" "perform_all gn (c # cs) p = perform_all gn cs (perform gn c p)"
  "perform_all gn (cs @ ds) p = perform_all gn ds (perform_all gn cs p)"
  by (simp_all add: perform_all_def)

lemma perform_all_keeps:
  assumes "gnort_ok feeds counter gn" "(name, lock) \<in> set known"
  shows "locks_ok feeds p \<Longrightarrow> locks p lock = Some h \<Longrightarrow> locks (perform_all gn cs p) lock = Some h"
  by (induction cs arbitrary: p) (auto dest: perform_step(2) [OF assms(1) _ assms(2)] intro: perform_step(1) [OF assms(1) _ assms(2)])

lemma perform_all_counter:
  assumes gn: "gnort_ok feeds counter gn" and n: "(name, lock) \<in> set known"
  shows "locks_ok feeds p \<Longrightarrow> counter name (registry (perform_all gn cs p)) = counter name (registry p) +
    (if attached feeds name lock (perform_all gn cs p) then total name cs else 0)"
proof (induction cs arbitrary: p)
  case (Cons c cs)
  let ?p = "perform gn c p"
  note step = perform_step [OF gn Cons.prems n, where c = c]
  have ih: "counter name (registry (perform_all gn cs ?p)) = counter name (registry ?p) +
    (if attached feeds name lock (perform_all gn cs ?p) then total name cs else 0)"
    by (rule Cons.IH [OF step(1)])
  show ?case
  proof (cases "locks ?p lock")
    case None
    then show ?thesis using ih step(3,4) by simp
  next
    case (Some h)
    then have "locks (perform_all gn cs ?p) lock = Some h" by (rule perform_all_keeps [OF gn n step(1)])
    then have "attached feeds name lock (perform_all gn cs ?p) \<longleftrightarrow> attached feeds name lock ?p"
      using Some by (simp add: attached_def)
    then show ?thesis using ih step(4) by (simp add: add.assoc)
  qed
qed simp

text \<open>Calls for other names leave the lock unset; the first call of the name decides what it holds for good.\<close>

lemma perform_all_others:
  assumes gn: "gnort_ok feeds counter gn" and n: "(name, lock) \<in> set known"
  shows "locks_ok feeds p \<Longrightarrow> locks p lock = None \<Longrightarrow> \<forall>c \<in> set cs. metric_name c \<noteq> name \<Longrightarrow>
    locks (perform_all gn cs p) lock = None \<and> locks_ok feeds (perform_all gn cs p)"
proof (induction cs arbitrary: p)
  case (Cons c cs)
  show ?case
    using Cons.IH [of "perform gn c p"] perform_step(1,3) [OF gn Cons.prems(1) n, of c] Cons.prems by simp
qed simp

lemma perform_all_locks_ok:
  assumes gn: "gnort_ok feeds counter gn" and n: "(name, lock) \<in> set known"
  shows "locks_ok feeds p \<Longrightarrow> locks_ok feeds (perform_all gn cs p)"
  by (induction cs arbitrary: p) (auto intro: perform_step(1) [OF gn _ n])

lemma first_call_decides:
  assumes gn: "gnort_ok feeds counter gn" and n: "(name, lock) \<in> set known"
    and p: "locks_ok feeds p" "locks p lock = None" and bs: "\<forall>b \<in> set bs. metric_name b \<noteq> name" and c: "metric_name c = name"
  shows "attached feeds name lock (perform_all gn (bs @ c # ds) p) \<longleftrightarrow>
    (\<exists>h. fst (register_count gn name (registry (perform_all gn bs p))) = Inr h)"
proof -
  let ?q = "perform_all gn bs p"
  have q: "locks ?q lock = None" "locks_ok feeds ?q" using perform_all_others [OF gn n p bs] by blast+
  note step = perform_step [OF gn q(2) n, where c = c]
  obtain h where h: "locks (perform gn c ?q) lock = Some h" using step(3) c by auto
  then have "locks (perform_all gn ds (perform gn c ?q)) lock = Some h" by (rule perform_all_keeps [OF gn n step(1)])
  then have "attached feeds name lock (perform_all gn (bs @ c # ds) p) \<longleftrightarrow> attached feeds name lock (perform gn c ?q)"
    using h by (simp add: attached_def)
  then show ?thesis using step(5) [OF q(1) c] by simp
qed

section \<open>Properties\<close>

text \<open>
  C37: the counters agree with the calls. In a process that starts with its locks unset, the registry's
  answer at the first call for a known name decides for good: when it accepts the name there, the counter
  has after any sequence of calls grown by the sum of the amounts for its name (modulo \<open>2 ^ 64\<close>), and when
  it refuses it, the counter has not grown at all, whatever the registry would answer later: the detached
  handle stays in the lock. The handle in a lock never changes.
\<close>

theorem counters_exact:
  assumes "gnort_ok feeds counter gn" "(name, lock) \<in> set known" "\<forall>l. locks p l = None"
  shows "let p' = perform_all gn calls p; before = takeWhile (\<lambda>c. metric_name c \<noteq> name) calls in
    counter name (registry p') = counter name (registry p) +
      (case fst (register_count gn name (registry (perform_all gn before p))) of
         Inr h \<Rightarrow> total name calls
       | Inl e \<Rightarrow> 0) \<and>
    (\<forall>more h. locks p' lock = Some h \<longrightarrow> locks (perform_all gn more p') lock = Some h)"
proof -
  have ok: "locks_ok feeds p" using assms(3) by (auto simp: locks_ok_def)
  let ?p = "perform_all gn calls p" and ?bs = "takeWhile (\<lambda>c. metric_name c \<noteq> name) calls"
  have bs: "\<forall>b \<in> set ?bs. metric_name b \<noteq> name" by (auto dest: set_takeWhileD)
  have "(if attached feeds name lock ?p then total name calls else 0) =
      (case fst (register_count gn name (registry (perform_all gn ?bs p))) of Inr h \<Rightarrow> total name calls | Inl e \<Rightarrow> 0)"
  proof (cases "dropWhile (\<lambda>c. metric_name c \<noteq> name) calls")
    case Nil
    then have "filter (\<lambda>c. metric_name c = name) calls = []" by (simp add: dropWhile_eq_Nil_conv filter_empty_conv)
    then have "total name calls = 0" by (simp add: total_def)
    then show ?thesis by (simp split: sum.splits)
  next
    case (Cons c ds)
    then have calls: "calls = ?bs @ c # ds" by (metis takeWhile_dropWhile_id)
    have c: "metric_name c = name" using hd_dropWhile [of "\<lambda>c. metric_name c \<noteq> name" calls] Cons by simp
    have "attached feeds name lock ?p \<longleftrightarrow> (\<exists>h. fst (register_count gn name (registry (perform_all gn ?bs p))) = Inr h)"
      using first_call_decides [OF assms(1,2) ok _ bs c, of ds] assms(3) by (simp only: calls [symmetric])
    then show ?thesis by (auto split: sum.splits)
  qed
  then have "counter name (registry ?p) = counter name (registry p) +
      (case fst (register_count gn name (registry (perform_all gn ?bs p))) of Inr h \<Rightarrow> total name calls | Inl e \<Rightarrow> 0)"
    using perform_all_counter [OF assms(1,2) ok, of calls] by simp
  moreover have "locks (perform_all gn more ?p) lock = Some h" if "locks ?p lock = Some h" for more h
    by (rule perform_all_keeps [OF assms(1,2) perform_all_locks_ok [OF assms(1,2) ok] that])
  ultimately show ?thesis by (simp add: Let_def)
qed

text \<open>A registry that keeps its counters in a map and accepts every name.\<close>

definition sample_gnort :: "(string \<Rightarrow> usize, string option) gnort" where
  "sample_gnort =
     \<lparr>register_count = (\<lambda>name g. (Inr (Some name), g)), default_count = (\<lambda>g. (None, g)),
      fetch_add = (\<lambda>h k g. case h of None \<Rightarrow> g | Some n \<Rightarrow> g(n := g n + k)),
      increment = (\<lambda>h g. case h of None \<Rightarrow> g | Some n \<Rightarrow> g(n := g n + 1))\<rparr>"

lemma sample_gnort_ok: "gnort_ok (\<lambda>h. h) (\<lambda>n g. g n) sample_gnort"
  by (auto simp: gnort_ok_def sample_gnort_def split: option.splits)

text \<open>The same registry refusing every name.\<close>

definition refusing_gnort :: "(string \<Rightarrow> usize, string option) gnort" where
  "refusing_gnort = sample_gnort\<lparr>register_count := (\<lambda>name g. (Inl [], g))\<rparr>"

lemma refusing_gnort_ok: "gnort_ok (\<lambda>h. h) (\<lambda>n g. g n) refusing_gnort"
  by (auto simp: gnort_ok_def refusing_gnort_def sample_gnort_def split: option.splits)

theorem counters_exact_witness:
  "let p = \<lparr>registry = (\<lambda>_. 0), locks = (\<lambda>_. None), leaked = []\<rparr>;
     calls = [Incr RUNS_CLAIMED, Incr_by RUNS_REAPED 5, Incr RUNS_CLAIMED]
   in registry (perform_all sample_gnort calls p) RUNS_CLAIMED = 2 \<and>
     registry (perform_all refusing_gnort calls p) RUNS_CLAIMED = 0"
proof -
  let ?p = "\<lparr>registry = (\<lambda>_. 0), locks = (\<lambda>_. None), leaked = []\<rparr> :: (string \<Rightarrow> usize, string option) statics"
  let ?cs = "[Incr RUNS_CLAIMED, Incr_by RUNS_REAPED 5, Incr RUNS_CLAIMED]"
  have k: "(RUNS_CLAIMED, M1) \<in> set known" by (simp add: known_def)
  have reg: "fst (register_count sample_gnort RUNS_CLAIMED g) = Inr (Some RUNS_CLAIMED)"
    "fst (register_count refusing_gnort RUNS_CLAIMED g) = Inl []" for g
    by (simp_all add: sample_gnort_def refusing_gnort_def)
  have "registry (perform_all sample_gnort ?cs ?p) RUNS_CLAIMED = registry ?p RUNS_CLAIMED + total RUNS_CLAIMED ?cs"
    using counters_exact [OF sample_gnort_ok k, of ?p ?cs] by (simp only: Let_def reg sum.case) simp
  moreover have "registry (perform_all refusing_gnort ?cs ?p) RUNS_CLAIMED = registry ?p RUNS_CLAIMED"
    using counters_exact [OF refusing_gnort_ok k, of ?p ?cs] by (simp only: Let_def reg sum.case) simp
  ultimately show ?thesis by (simp add: Let_def metric_names)
qed

end
