(* ===== verification/Pools.thy ===== *)
theory Pools
  imports Rust_Std
begin

text \<open>
  \<^verbatim>\<open>src/src/pool.rs\<close>: the trait \<open>SchedulerPool\<close> and its adapters to three pool crates. A crate's own \<open>get\<close> and
  the \<open>Display\<close> of its error type are parameters; the boxed error is known to its users by its text only.
\<close>

datatype PoolError = PoolError rust_string

primrec PoolError_to_string :: "PoolError \<Rightarrow> rust_string" where
  "PoolError_to_string (PoolError text) = text"

text \<open>
  The answer of \<open>acquire\<close>. A connection is a way to run statements on the one database, so nothing of it
  is kept.
\<close>

type_synonym acquired = "PoolError + unit"

definition deadpool_acquire :: "('e \<Rightarrow> rust_string) \<Rightarrow> ('p \<Rightarrow> 'e + 'c) \<Rightarrow> 'p \<Rightarrow> PoolError + 'c" where
  "deadpool_acquire display get pool = map_err (\<lambda>e. PoolError (display e)) (get pool)"

definition bb8_acquire :: "('e \<Rightarrow> rust_string) \<Rightarrow> ('p \<Rightarrow> 'e + 'c) \<Rightarrow> 'p \<Rightarrow> PoolError + 'c" where
  "bb8_acquire display get_owned pool = map_err (\<lambda>e. PoolError (display e)) (get_owned pool)"

definition mobc_acquire :: "('e \<Rightarrow> rust_string) \<Rightarrow> ('p \<Rightarrow> 'e + 'c) \<Rightarrow> 'p \<Rightarrow> PoolError + 'c" where
  "mobc_acquire display get pool = map_err (\<lambda>e. PoolError (display e)) (get pool)"

end
