(* ===== verification/Worker.thy ===== *)
theory Worker
  imports Lifecycle Registry Metrics Pools
begin

text \<open>
  \<^verbatim>\<open>src/src/runtime/worker.rs\<close>: the loop that polls, recovers, claims
  and dispatches, the future that drives one handler under its lease, and shutdown.

  The asynchronous program is a step relation. A worker's state is the program point of its loop, the
  semaphore, the dispatch tasks that run (each holds a permit), the finished ones not yet joined,
  and its reports. A step is the code between two points at which another task or session can act:
  one branch of \<open>select!\<close>, the claim, one turn of the dispatching \<open>for\<close> loop, one heartbeat, one
  finalization; the database may be changed by anybody else in between. What the runtime leaves open is
  an argument of the step: the connection the pool returns or refuses (\<open>acq\<close>), the transaction's
  environment, the local clock \<open>Utc::now\<close>, the result of a handler's own future, panics and aborts.
  Other tracing than that of joined handlers is left out.
\<close>

section \<open>One dispatch task\<close>

record ('v, 'f) flight =
  fl_claimed :: "'v ClaimedRun"
  fl_context :: JobContext
  fl_future :: "'f BoxFuture"
  fl_lease_expires_at :: timestamp

definition dispatch_context :: "'v ClaimedRun \<Rightarrow> JobContext" where
  "dispatch_context claimed =
     \<lparr>jc_run_id = c_run_id claimed, jc_job_id = c_job_id claimed, jc_job_name = c_job_name claimed,
      jc_scheduled_for = c_scheduled_for claimed, jc_attempt = c_attempt claimed,
      jc_lease_token = c_lease_token claimed, jc_lease_expires_at = c_lease_expires_at claimed,
      jc_cancellation = CancellationToken (c_lease_token claimed)\<rparr>"

definition dispatch_start :: "('v, 'f) Handler \<Rightarrow> 'v ClaimedRun \<Rightarrow> ('v, 'f) flight" where
  "dispatch_start handler claimed =
     \<lparr>fl_claimed = claimed, fl_context = dispatch_context claimed,
      fl_future = handler (dispatch_context claimed) (c_job_args claimed),
      fl_lease_expires_at = c_lease_expires_at claimed\<rparr>"

definition heartbeat_interval :: "duration \<Rightarrow> duration" where
  "heartbeat_interval lease =
     (let third = duration_div lease 3
      in if duration_is_zero third then from_micros 1 else third)"

text \<open>
  The heartbeat branch of \<open>dispatch\<close>'s loop: the task goes on with the expiry it now knows, or stops
  because the lease is lost.
\<close>

definition dispatch_heartbeat ::
    "acquired \<Rightarrow> env \<Rightarrow> timestamp \<Rightarrow> ('v, 'f) flight \<Rightarrow> 'v db \<Rightarrow> ('v, 'f) flight option \<times> 'v db" where
  "dispatch_heartbeat acq env utc_now f db =
     (let (known, db') =
        (case acq of
           Inl e \<Rightarrow> (Some (fl_lease_expires_at f), db)
         | Inr u \<Rightarrow>
             (case renew_lease env (c_run_id (fl_claimed f)) (c_lease_token (fl_claimed f)) db of
                (Inr (Renewed renewed), db1) \<Rightarrow> (Some renewed, db1)
              | (Inr RenewFenced, db1) \<Rightarrow> (None, db1)
              | (Inl e, db1) \<Rightarrow> (Some (fl_lease_expires_at f), db1)))
      in case known of
           None \<Rightarrow> (None, db')
         | Some expires \<Rightarrow>
             if expires \<le> utc_now then (None, db')
             else (Some (f\<lparr>fl_lease_expires_at := expires\<rparr>), db'))"

definition finalize_handler ::
    "acquired \<Rightarrow> env \<Rightarrow> ('v db \<Rightarrow> 'v db) \<Rightarrow> 'v ClaimedRun \<Rightarrow> JobError + unit \<Rightarrow> 'v db \<Rightarrow> metric_call list \<times> 'v db" where
  "finalize_handler acq env others claimed result db =
     (case acq of
        Inl e \<Rightarrow> ([], db)
      | Inr u \<Rightarrow>
          (case result of
             Inr v \<Rightarrow>
               (case finalize_run env others (c_run_id claimed) (c_lease_token claimed) OutCompleted db of
                  (Inr FinApplied, db') \<Rightarrow> ([Incr RUNS_COMPLETED], db')
                | (_, db') \<Rightarrow> ([], db'))
           | Inl error \<Rightarrow>
               (case fail_run env others (c_run_id claimed) (c_lease_token claimed) (JobError_to_string error)
                       (JobError_is_retryable error) db of
                  (Inr (FlRetried t), db') \<Rightarrow> ([Incr RUNS_REQUEUED], db')
                | (Inr FlFailed, db') \<Rightarrow> ([Incr RUNS_FAILED], db')
                | (_, db') \<Rightarrow> ([], db'))))"

text \<open>The results a future can resolve to: any, for a handler's own.\<close>

definition resolves :: "'f BoxFuture \<Rightarrow> JobError + unit \<Rightarrow> bool" where
  "resolves fut result \<longleftrightarrow> (case fut of UserFuture f \<Rightarrow> True | ReadyFuture r \<Rightarrow> result = r)"

section \<open>The worker's state\<close>

text \<open>How a spawned task can end otherwise than by returning.\<close>

datatype JoinError = JoinPanicked | JoinAborted

text \<open>
  The points of \<open>run_until_shutdown\<close>. \<open>w_finished\<close> has the tasks of the \<open>JoinSet\<close> that have ended and wait to be
  joined, \<open>w_cancelled\<close> the cancelled tokens, \<open>w_metrics\<close> the calls of the counters, \<open>w_log\<close> the log entries of
  \<open>log_handler_join\<close>.
\<close>

datatype 'v phase =
  Selecting
| Claiming
| Dispatching "'v ClaimedRun list"
| Reporting "SchedulerError option"
| Draining
| Exited

record ('v, 'f) worker =
  w_phase :: "'v phase"
  w_permits :: nat
  w_flights :: "('v, 'f) flight list"
  w_finished :: "(JoinError + unit) list"
  w_cancelled :: "CancellationToken list"
  w_failures :: u64
  w_health :: WorkerHealth
  w_metrics :: "metric_call list"
  w_log :: "string list"

text \<open>
  The prologue. \<open>max_permits\<close> is \<open>tokio\<close>'s \<open>Semaphore::MAX_PERMITS\<close>; creating a semaphore with more panics,
  which is \<open>None\<close>.
\<close>

definition run_start :: "nat \<Rightarrow> ('p, 'v, 'f) Scheduler \<Rightarrow> ('v, 'f) worker option" where
  "run_start max_permits s =
     (let n = unat (cfg_max_concurrency (s_config s))
      in if max_permits < n then None
         else Some \<lparr>w_phase = Selecting, w_permits = n, w_flights = [], w_finished = [], w_cancelled = [],
                    w_failures = 0, w_health = s_health s, w_metrics = [], w_log = []\<rparr>)"

section \<open>The cycle\<close>

definition conn :: "acquired \<Rightarrow> SchedulerError + unit" where
  "conn acq = map_err (\<lambda>e. Pool (PoolError_to_string e)) acq"

definition materialize ::
    "acquired \<Rightarrow> 'c croner \<Rightarrow> (nat \<Rightarrow> env) \<Rightarrow> (nat \<Rightarrow> 'v db \<Rightarrow> 'v db) \<Rightarrow> 'v db \<Rightarrow>
       (SchedulerError + metric_call list) \<times> 'v db" where
  "materialize acq cr envs others db =
     (case conn acq of
        Inl e \<Rightarrow> (Inl e, db)
      | Inr u \<Rightarrow>
          (case materialize_due_jobs cr envs others db of
             (Inl e, db') \<Rightarrow> (Inl e, db')
           | (Inr n, db') \<Rightarrow> (Inr (if n > 0 then [Incr_by RUNS_MATERIALIZED (of_nat n)] else []), db')))"

definition recover_leases :: "acquired \<Rightarrow> env \<Rightarrow> 'v db \<Rightarrow> (SchedulerError + metric_call list) \<times> 'v db" where
  "recover_leases acq env db =
     (case conn acq of
        Inl e \<Rightarrow> (Inl e, db)
      | Inr u \<Rightarrow>
          (case recover_expired env 1000 db of
             (Inl e, db') \<Rightarrow> (Inl e, db')
           | (Inr summary, db') \<Rightarrow>
               (Inr ((if requeued summary > 0 then [Incr_by RUNS_REQUEUED (of_nat (requeued summary))] else []) @
                     (if failed_count summary > 0 then [Incr_by RUNS_REAPED (of_nat (failed_count summary))] else [])),
                db')))"

text \<open>Joining a handler's task: a panic is logged, an abort is not.\<close>

definition is_cancelled :: "JoinError \<Rightarrow> bool" where
  "is_cancelled e \<longleftrightarrow> e = JoinAborted"

definition log_handler_join :: "JoinError + unit \<Rightarrow> string list" where
  "log_handler_join result =
     (case result of
        Inl error \<Rightarrow> if \<not> is_cancelled error then [''handler task panicked''] else []
      | Inr u \<Rightarrow> [])"

definition join_finished :: "('v, 'f) worker \<Rightarrow> ('v, 'f) worker" where
  "join_finished w = w\<lparr>w_finished := [], w_log := w_log w @ concat (map log_handler_join (w_finished w))\<rparr>"

lemma join_finished_simps [simp]:
  "w_phase (join_finished w) = w_phase w" "w_permits (join_finished w) = w_permits w"
  "w_flights (join_finished w) = w_flights w" "w_cancelled (join_finished w) = w_cancelled w"
  "w_failures (join_finished w) = w_failures w" "w_health (join_finished w) = w_health w"
  "w_metrics (join_finished w) = w_metrics w" "w_finished (join_finished w) = []"
  by (simp_all add: join_finished_def)

text \<open>After a branch of \<open>select!\<close>: finished tasks are joined, and the cycle goes on to claim unless it failed.\<close>

definition after_select :: "SchedulerError + metric_call list \<Rightarrow> ('v, 'f) worker \<Rightarrow> ('v, 'f) worker" where
  "after_select res w =
     (case res of
        Inl e \<Rightarrow> (join_finished w)\<lparr>w_phase := Reporting (Some e)\<rparr>
      | Inr ms \<Rightarrow> (join_finished w)\<lparr>w_phase := Claiming, w_metrics := w_metrics w @ ms\<rparr>)"

text \<open>\<open>claim_and_dispatch\<close> up to its \<open>for\<close> loop.\<close>

definition claim_tasks ::
    "('p, 'v, 'f) Scheduler \<Rightarrow> acquired \<Rightarrow> env \<Rightarrow> 'v db \<times> ('v, 'f) worker \<Rightarrow> 'v db \<times> ('v, 'f) worker" where
  "claim_tasks s acq env = (\<lambda>(db, w).
     case non_zero (of_nat (w_permits w) :: usize) of
       None \<Rightarrow> (db, w\<lparr>w_phase := Reporting None\<rparr>)
     | Some limit \<Rightarrow>
         (case conn acq of
            Inl e \<Rightarrow> (db, w\<lparr>w_phase := Reporting (Some e)\<rparr>)
          | Inr u \<Rightarrow>
              (case claim_batch env (cfg_worker_id (s_config s)) (Registry_names (s_registry s)) limit db of
                 (Inl e, db') \<Rightarrow> (db', w\<lparr>w_phase := Reporting (Some e)\<rparr>)
               | (Inr claimed, db') \<Rightarrow> (db', w\<lparr>w_phase := Dispatching claimed\<rparr>))))"

text \<open>One turn of the \<open>for\<close> loop of \<open>claim_and_dispatch\<close>.\<close>

definition dispatch_next :: "('p, 'v, 'f) Scheduler \<Rightarrow> 'v ClaimedRun list \<Rightarrow> ('v, 'f) worker \<Rightarrow> ('v, 'f) worker" where
  "dispatch_next s claimed w =
     (case claimed of
        [] \<Rightarrow> w\<lparr>w_phase := Reporting None\<rparr>
      | task # rest \<Rightarrow>
          if w_permits w = 0
          then w\<lparr>w_phase := Reporting (Some (Invariant ''claimed more tasks than worker capacity''))\<rparr>
          else (case Registry_get (c_job_name task) (s_registry s) of
                  None \<Rightarrow> w\<lparr>w_phase := Reporting (Some (Invariant ''claimed task has no registered handler''))\<rparr>
                | Some handler \<Rightarrow>
                    w\<lparr>w_phase := Dispatching rest, w_permits := w_permits w - 1,
                      w_flights := w_flights w @ [dispatch_start handler task],
                      w_metrics := w_metrics w @ [Incr RUNS_CLAIMED]\<rparr>))"

definition update_health ::
    "(SchedulerError \<Rightarrow> rust_string) \<Rightarrow> SchedulerError option \<Rightarrow> u64 \<Rightarrow> u64 \<times> WorkerHealth" where
  "update_health to_string error failures =
     (case error of
        Some e \<Rightarrow>
          (let n = u64_saturating_add failures 1
           in (n, \<lparr>status = Degraded, consecutive_failures = n, last_error = Some (to_string e)\<rparr>))
      | None \<Rightarrow> (0, \<lparr>status = Healthy, consecutive_failures = 0, last_error = None\<rparr>))"

definition report :: "(SchedulerError \<Rightarrow> rust_string) \<Rightarrow> SchedulerError option \<Rightarrow> ('v, 'f) worker \<Rightarrow> ('v, 'f) worker" where
  "report to_string error w =
     (let (n, h) = update_health to_string error (w_failures w)
      in w\<lparr>w_phase := Selecting, w_failures := n, w_health := h\<rparr>)"

section \<open>Dispatch tasks of the worker\<close>

text \<open>A task ends: its permit returns, its guard cancels the token, and it waits to be joined.\<close>

definition end_flight :: "JoinError + unit \<Rightarrow> nat \<Rightarrow> ('v, 'f) worker \<Rightarrow> ('v, 'f) worker" where
  "end_flight result i w =
     w\<lparr>w_flights := take i (w_flights w) @ drop (i + 1) (w_flights w), w_permits := w_permits w + 1,
       w_finished := w_finished w @ [result],
       w_cancelled := jc_cancellation (fl_context (w_flights w ! i)) # w_cancelled w\<rparr>"

definition flight_heartbeat ::
    "acquired \<Rightarrow> env \<Rightarrow> timestamp \<Rightarrow> nat \<Rightarrow> 'v db \<times> ('v, 'f) worker \<Rightarrow> 'v db \<times> ('v, 'f) worker" where
  "flight_heartbeat acq env utc_now i = (\<lambda>(db, w).
     case dispatch_heartbeat acq env utc_now (w_flights w ! i) db of
       (None, db') \<Rightarrow> (db', end_flight (Inr ()) i w)
     | (Some f, db') \<Rightarrow> (db', w\<lparr>w_flights := (w_flights w)[i := f]\<rparr>))"

definition flight_finish ::
    "acquired \<Rightarrow> env \<Rightarrow> ('v db \<Rightarrow> 'v db) \<Rightarrow> JobError + unit \<Rightarrow> nat \<Rightarrow> 'v db \<times> ('v, 'f) worker \<Rightarrow> 'v db \<times> ('v, 'f) worker" where
  "flight_finish acq env others result i = (\<lambda>(db, w).
     case finalize_handler acq env others (fl_claimed (w_flights w ! i)) result db of
       (ms, db') \<Rightarrow> (db', (end_flight (Inr ()) i w)\<lparr>w_metrics := w_metrics w @ ms\<rparr>))"

text \<open>The end of \<open>run_until_shutdown\<close>: what still runs is aborted, everything is joined.\<close>

definition shut_down :: "('v, 'f) worker \<Rightarrow> ('v, 'f) worker" where
  "shut_down w =
     (join_finished (w\<lparr>w_finished := w_finished w @ map (\<lambda>_. Inl JoinAborted) (w_flights w)\<rparr>))
      \<lparr>w_phase := Exited, w_flights := [],
       w_permits := w_permits w + length (w_flights w),
       w_cancelled := map (jc_cancellation \<circ> fl_context) (w_flights w) @ w_cancelled w,
       w_health := \<lparr>status = Stopped, consecutive_failures = w_failures w, last_error = None\<rparr>\<rparr>"

text \<open>
  The step relation takes what the other sessions may do as a parameter: \<open>R\<close> holds of the databases before and
  after one of their transactions. They take whole steps (\<open>others\<close>), and any number of them between the
  statements of the operations that span several (the polling, the answer of a refused finalization).
\<close>

inductive worker_step ::
    "('v db \<Rightarrow> 'v db \<Rightarrow> bool) \<Rightarrow> 'c croner \<Rightarrow> (SchedulerError \<Rightarrow> rust_string) \<Rightarrow> ('p, 'v, 'f) Scheduler \<Rightarrow>
       'v db \<times> ('v, 'f) worker \<Rightarrow> 'v db \<times> ('v, 'f) worker \<Rightarrow> bool"
  for R :: "'v db \<Rightarrow> 'v db \<Rightarrow> bool" and cr :: "'c croner" and to_string :: "SchedulerError \<Rightarrow> rust_string" and s :: "('p, 'v, 'f) Scheduler" where
  poll: "w_phase w = Selecting \<Longrightarrow> (\<And>n d. R\<^sup>*\<^sup>* d (others n d)) \<Longrightarrow>
    materialize acq cr envs others db = (res, db') \<Longrightarrow>
    worker_step R cr to_string s (db, w) (db', after_select res w)"
| recover: "w_phase w = Selecting \<Longrightarrow> recover_leases acq env db = (res, db') \<Longrightarrow>
    worker_step R cr to_string s (db, w) (db', after_select res w)"
| join: "w_phase w = Selecting \<Longrightarrow> w_finished w \<noteq> [] \<Longrightarrow>
    worker_step R cr to_string s (db, w) (db, after_select (Inr []) w)"
| cancelled: "w_phase w = Selecting \<Longrightarrow> worker_step R cr to_string s (db, w) (db, w\<lparr>w_phase := Draining\<rparr>)"
| claim: "w_phase w = Claiming \<Longrightarrow> worker_step R cr to_string s (db, w) (claim_tasks s acq env (db, w))"
| dispatch: "w_phase w = Dispatching claimed \<Longrightarrow>
    worker_step R cr to_string s (db, w) (db, dispatch_next s claimed w)"
| report: "w_phase w = Reporting error \<Longrightarrow> worker_step R cr to_string s (db, w) (db, report to_string error w)"
| heartbeat: "i < length (w_flights w) \<Longrightarrow>
    worker_step R cr to_string s (db, w) (flight_heartbeat acq env utc_now i (db, w))"
| finish: "i < length (w_flights w) \<Longrightarrow> resolves (fl_future (w_flights w ! i)) result \<Longrightarrow>
    (\<And>d. R\<^sup>*\<^sup>* d (others d)) \<Longrightarrow>
    worker_step R cr to_string s (db, w) (flight_finish acq env others result i (db, w))"
| panic: "i < length (w_flights w) \<Longrightarrow> worker_step R cr to_string s (db, w) (db, end_flight (Inl JoinPanicked) i w)"
| drained: "w_phase w = Draining \<Longrightarrow> worker_step R cr to_string s (db, w) (db, shut_down w)"
| others: "R db db' \<Longrightarrow> worker_step R cr to_string s (db, w) (db', w)"

text \<open>A worker among sessions that run any operation of the scheduler, and a worker alone.\<close>

abbreviation worker_steps where
  "worker_steps cr to_string s \<equiv> (worker_step (sched_step cr) cr to_string s)\<^sup>*\<^sup>*"

abbreviation own_steps where
  "own_steps cr to_string s \<equiv> (worker_step (\<lambda>_ _. False) cr to_string s)\<^sup>*\<^sup>*"

text \<open>What a worker does alone it can do among others.\<close>

lemma worker_step_mono:
  assumes "worker_step R cr to_string s c c'" "\<And>d d'. R d d' \<Longrightarrow> R' d d'"
  shows "worker_step R' cr to_string s c c'"
proof -
  have RR: "R\<^sup>*\<^sup>* d d' \<Longrightarrow> R'\<^sup>*\<^sup>* d d'" for d d'
    using assms(2) by (metis mono_rtranclp)
  from assms(1) show ?thesis
  proof (induction rule: worker_step.induct)
    case (poll w others acq envs db res db')
    then show ?case using RR by (intro worker_step.poll) auto
  next
    case (finish i w result others db acq env)
    then show ?case using RR by (intro worker_step.finish) auto
  qed (auto intro: worker_step.intros assms(2))
qed

lemma own_steps_worker_steps: "own_steps cr to_string s c c' \<Longrightarrow> worker_steps cr to_string s c c'"
  by (induction rule: rtranclp_induct) (auto intro: rtranclp.rtrancl_into_rtrancl worker_step_mono)

section \<open>The worker acts through the scheduler's operations\<close>

lemma materialize_loop_sched:
  assumes "\<And>n d. sched_steps cr d (others n d)"
  shows "sched_steps cr db (snd (materialize_loop cr envs others n db))"
  using assms
proof (induction cr envs others n db rule: materialize_loop.induct)
  case (1 cr envs others n db)
  have step: "sched_step cr db (snd (materialize_one cr (envs n) db))" by (rule sched_step.materialize)
  show ?case
  proof (cases rule: materialize_loop_cases [of n cr envs others db])
    case (again d)
    then have "sched_steps cr db (others n d)" using step "1.prems" by (auto intro: converse_rtranclp_into_rtranclp)
    then show ?thesis
      using "1.IH" [OF again(1) again(2) [symmetric] refl refl "1.prems"] again(3) by (simp add: rtranclp_trans)
  qed (use step in auto)
qed

lemma materialize_sched:
  assumes "\<And>n d. sched_steps cr d (others n d)"
  shows "sched_steps cr db (snd (materialize acq cr envs others db))"
  using materialize_loop_sched [of cr others db envs 0, OF assms]
  by (auto simp: materialize_def materialize_due_jobs_def split: sum.splits prod.splits)

lemma recover_leases_sched: "sched_steps cr db (snd (recover_leases acq env db))"
  using sched_step.recover [of cr db env 1000]
  by (auto simp: recover_leases_def split: sum.splits prod.splits)

lemma claim_tasks_sched: "sched_steps cr db (fst (claim_tasks s acq env (db, w)))"
  using sched_step.claim [of cr db env "cfg_worker_id (s_config s)" "Registry_names (s_registry s)" "of_nat (w_permits w)"]
  by (auto simp: claim_tasks_def non_zero_def split: sum.splits prod.splits option.splits if_splits)

lemma heartbeat_sched: "sched_steps cr db (snd (dispatch_heartbeat acq env t f db))"
  using sched_step.renew [of cr db env "c_run_id (fl_claimed f)" "c_lease_token (fl_claimed f)"]
  by (auto simp: dispatch_heartbeat_def split: sum.splits prod.splits option.splits RenewalOutcome.splits)

lemma finalize_run_sched:
  assumes "\<And>d. sched_steps cr d (others d)"
  shows "sched_steps cr db (snd (finalize_run env others rid tok out db))"
proof -
  let ?d = "snd (finalize_run env id rid tok out db)"
  have "sched_steps cr db ?d" by (intro r_into_rtranclp sched_step.finalize)
  with assms [of ?d] finalize_run_split [of env others rid tok out db] show ?thesis
    by (metis rtranclp_trans)
qed

lemma fail_run_sched:
  assumes "\<And>d. sched_steps cr d (others d)"
  shows "sched_steps cr db (snd (fail_run env others rid tok err b db))"
proof -
  let ?d = "snd (fail_run env id rid tok err b db)"
  have "sched_steps cr db ?d" by (intro r_into_rtranclp sched_step.fail)
  with assms [of ?d] fail_run_split [of env others rid tok err b db] show ?thesis
    by (metis rtranclp_trans)
qed

lemma finalize_handler_sched:
  assumes "\<And>d. sched_steps cr d (others d)"
  shows "sched_steps cr db (snd (finalize_handler acq env others claimed result db))"
proof (cases result)
  case (Inl e)
  then show ?thesis
    using fail_run_sched [OF assms, of db env "c_run_id claimed" "c_lease_token claimed" "JobError_to_string e"
      "JobError_is_retryable e"]
    by (auto simp: finalize_handler_def split: sum.splits prod.splits FailureOutcome.splits)
next
  case (Inr u)
  then show ?thesis
    using finalize_run_sched [OF assms, of db env "c_run_id claimed" "c_lease_token claimed" OutCompleted]
    by (auto simp: finalize_handler_def split: sum.splits prod.splits FinalizeOutcome.splits)
qed

lemma flight_heartbeat_db: "fst (flight_heartbeat acq env t i (db, w)) = snd (dispatch_heartbeat acq env t (w_flights w ! i) db)"
  by (auto simp: flight_heartbeat_def split: prod.splits option.splits)

lemma flight_finish_db:
  "fst (flight_finish acq env others result i (db, w)) = snd (finalize_handler acq env others (fl_claimed (w_flights w ! i)) result db)"
  by (auto simp: flight_finish_def split: prod.splits)

lemma worker_step_sched: "worker_step (sched_step cr) cr to_string s c c' \<Longrightarrow> sched_steps cr (fst c) (fst c')"
proof (induction rule: worker_step.induct)
  case (poll w others acq envs db res db')
  then show ?case using materialize_sched [of cr others db acq envs] by simp
next
  case (recover w acq env db res db')
  then show ?case using recover_leases_sched [of cr db acq env] by simp
qed (auto simp: claim_tasks_sched heartbeat_sched finalize_handler_sched flight_heartbeat_db flight_finish_db)

interpretation worker: simulation "worker_step (sched_step cr) cr to_string s" "sched_step cr" fst "\<lambda>c. db_inv (fst c)"
  for cr to_string s
  by unfold_locales (auto dest!: worker_step_sched intro: sched_steps_inv)

section \<open>Errors of a cycle\<close>

text \<open>The operations report the errors of their environment: never a violated invariant.\<close>

definition environmental :: "SchedulerError \<Rightarrow> bool" where
  "environmental e \<longleftrightarrow> (case e of Database d \<Rightarrow> True | Pool p \<Rightarrow> True | Cron m \<Rightarrow> True | _ \<Rightarrow> False)"

lemma environmental_simps [simp]:
  "environmental (Database d)" "environmental (Pool p)" "environmental (Cron m)" "\<not> environmental (Invariant i)"
  "\<not> environmental (Config c)"
  by (simp_all add: environmental_def)

lemma environmental_checked: "checked db = Inl e \<Longrightarrow> environmental e"
  by (auto dest: checked_Inl_database)

lemma environmental_admit: "admit t c = Inl e \<Longrightarrow> environmental e"
  by (auto simp: admit_def split: if_splits)

lemma environmental_next: "CronExpression_next_after cr c t = Inl e \<Longrightarrow> environmental e"
  by (auto simp: CronExpression_next_after_def map_err_def split: sum.splits)

lemma materialize_one_errors: "materialize_one cr env db = (Inl e, db') \<Longrightarrow> environmental e"
proof (cases rule: SELECT_DUE_cases [of env db])
  case (some j)
  assume err: "materialize_one cr env db = (Inl e, db')"
  show ?thesis
  proof (cases "due_readable env j")
    case True
    with err show ?thesis
      by (auto simp: materialize_one_selected [OF some(1)] transaction_def INSERT_RUN_def ADVANCE_def PAUSE_def Let_def
          and_then_Inl_iff and_then_Inr_iff environmental_checked environmental_admit environmental_next
          split: sum.splits if_splits)
  next
    case False
    with err show ?thesis by (auto simp: materialize_one_unreadable [OF some(1)])
  qed
qed (simp add: materialize_one_def transaction_def)

lemma materialize_loop_errors: "materialize_loop cr envs others n db = (Inl e, db') \<Longrightarrow> environmental e"
proof (induction cr envs others n db rule: materialize_loop.induct)
  case (1 cr envs others n db)
  show ?case
  proof (cases rule: materialize_loop_cases [of n cr envs others db])
    case (again d)
    then show ?thesis using "1.IH" [OF again(1) again(2) [symmetric] refl refl] "1.prems" by simp
  qed (use "1.prems" materialize_one_errors in auto)
qed

lemma conn_errors: "conn acq = Inl e \<Longrightarrow> environmental e"
  by (cases acq) (auto simp: conn_def)

lemma materialize_errors: "materialize acq cr envs others db = (Inl e, db') \<Longrightarrow> environmental e"
  by (auto simp: materialize_def materialize_due_jobs_def conn_errors
      dest: materialize_loop_errors split: sum.splits prod.splits)

lemma recover_leases_errors:
  assumes "db_inv db" "recover_leases acq env db = (Inl e, db')"
  shows "environmental e"
proof -
  have "recover_expired env 1000 db = (Inl e', d) \<Longrightarrow> environmental e'" for e' d
    using assms(1)
    by (cases rule: recover_expired_cases [of db env 1000])
      (auto simp: i64_max_def)
  then show ?thesis
    using assms(2) by (auto simp: recover_leases_def conn_errors split: sum.splits prod.splits)
qed

section \<open>The worker's invariant\<close>

text \<open>
  Permits and running tasks add up to the configured concurrency, claimed tasks that wait for dispatch
  have both a permit and a handler, and the error a cycle is about to report is environmental.
\<close>

definition phase_ok :: "('p, 'v, 'f) Scheduler \<Rightarrow> ('v, 'f) worker \<Rightarrow> bool" where
  "phase_ok s w \<longleftrightarrow>
     (case w_phase w of
        Dispatching cs \<Rightarrow> length cs \<le> w_permits w \<and>
          (\<forall>c \<in> set cs. Registry_get (c_job_name c) (s_registry s) \<noteq> None)
      | Reporting (Some e) \<Rightarrow> environmental e
      | Exited \<Rightarrow> w_flights w = []
      | _ \<Rightarrow> True)"

text \<open>The handlers started so far, by the claim counter.\<close>

definition started :: "metric_call list \<Rightarrow> nat" where
  "started ms = length (filter (\<lambda>m. metric_name m = RUNS_CLAIMED) ms)"

definition worker_inv :: "('p, 'v, 'f) Scheduler \<Rightarrow> 'v db \<times> ('v, 'f) worker \<Rightarrow> bool" where
  "worker_inv s = (\<lambda>(db, w). db_inv db \<and> int (unat (cfg_max_concurrency (s_config s))) \<le> i64_max \<and>
     w_permits w + length (w_flights w) = unat (cfg_max_concurrency (s_config s)) \<and>
     started (w_metrics w) = length (w_flights w) + length (w_cancelled w) \<and> phase_ok s w)"

lemma started_simps [simp]:
  "started [] = 0" "started (ms @ ns) = started ms + started ns" "started (Incr RUNS_CLAIMED # ms) = Suc (started ms)"
  "started (Incr RUNS_COMPLETED # ms) = started ms" "started (Incr RUNS_FAILED # ms) = started ms"
  "started (Incr RUNS_REQUEUED # ms) = started ms" "started (Incr_by RUNS_MATERIALIZED n # ms) = started ms"
  "started (Incr_by RUNS_REQUEUED n # ms) = started ms" "started (Incr_by RUNS_REAPED n # ms) = started ms"
  by (simp_all add: started_def) (simp_all add: metric_names)

lemma materialize_started: "materialize acq cr envs others db = (Inr ms, db') \<Longrightarrow> started ms = 0"
  by (auto simp: materialize_def split: sum.splits prod.splits if_splits)

lemma recover_leases_started: "recover_leases acq env db = (Inr ms, db') \<Longrightarrow> started ms = 0"
  by (auto simp: recover_leases_def split: sum.splits prod.splits if_splits)

lemma finalize_handler_started: "finalize_handler acq env others claimed result db = (ms, db') \<Longrightarrow> started ms = 0"
  by (auto simp: finalize_handler_def split: sum.splits prod.splits FinalizeOutcome.splits FailureOutcome.splits)

lemma claim_batch_bounds:
  assumes inv: "db_inv db" and claim: "claim_batch env wid names limit db = (Inr cs, db')"
  shows "length cs \<le> unat limit" and "c \<in> set cs \<Longrightarrow> JobName_as_str (c_job_name c) \<in> set names"
proof -
  have sch: "schema_ok db" using inv by (simp add: db_inv_def)
  from inv have dec: "list_all2 (\<lambda>row c. decode_claimed row = Inr c) (claimed_rows env names (unat limit) db) cs"
    by (cases rule: claim_batch_cases [of db env wid names limit]) (use claim in auto)
  show "length cs \<le> unat limit"
    using claimed_ids(2) [OF dec sch] length_select_ordered by (metis claim_candidates_def)
  show "JobName_as_str (c_job_name c) \<in> set names" if c: "c \<in> set cs"
    by (rule claimed_decoded [OF dec sch c]) (use claim_candidatesD(2) in \<open>fastforce simp: claimable_def\<close>)
qed

lemma claim_batch_errors:
  assumes "db_inv db" "uint limit \<le> i64_max" "claim_batch env wid names limit db = (Inl e, db')"
  shows "environmental e"
  using assms(1) by (cases rule: claim_batch_cases [of db env wid names limit]) (use assms in auto)

text \<open>The semaphore's permits survive the conversion to the claim's limit.\<close>

lemma permits_limit:
  assumes "worker_inv s (db, w)"
  shows "unat (of_nat (w_permits w) :: usize) = w_permits w" "uint (of_nat (w_permits w) :: usize) \<le> i64_max"
proof -
  have "w_permits w \<le> unat (cfg_max_concurrency (s_config s))"
    "int (unat (cfg_max_concurrency (s_config s))) \<le> i64_max"
    using assms unfolding worker_inv_def by auto
  then have p: "int (w_permits w) \<le> i64_max" by linarith
  then show lim: "unat (of_nat (w_permits w) :: usize) = w_permits w" by (simp add: unat_of_nat i64_max_def)
  show "uint (of_nat (w_permits w) :: usize) \<le> i64_max" using p lim by (metis uint_nat)
qed

lemma claim_tasks_inv:
  assumes inv: "worker_inv s (db, w)"
  shows "worker_inv s (claim_tasks s acq env (db, w))"
proof -
  let ?limit = "of_nat (w_permits w) :: usize"
  let ?claim = "claim_batch env (cfg_worker_id (s_config s)) (Registry_names (s_registry s)) ?limit db"
  have db: "db_inv db" "db_inv (snd ?claim)" using inv claim_batch_inv by (auto simp: worker_inv_def)
  note lim = permits_limit [OF inv]
  note errors = claim_batch_errors [OF db(1) lim(2)] conn_errors
  note bounds = claim_batch_bounds [OF db(1)]
  consider "?limit = 0" | e where "?limit \<noteq> 0" "conn acq = Inl e"
    | u e d where "?limit \<noteq> 0" "conn acq = Inr u" "?claim = (Inl e, d)"
    | u cs d where "?limit \<noteq> 0" "conn acq = Inr u" "?claim = (Inr cs, d)"
    by (metis old.sum.exhaust surj_pair)
  then show ?thesis
  proof cases
    case (4 u cs d)
    have "length cs \<le> w_permits w" using bounds(1) [OF 4(3)] lim(1) by simp
    moreover have "\<forall>c \<in> set cs. Registry_get (c_job_name c) (s_registry s) \<noteq> None"
      using bounds(2) [OF 4(3)] names_iff_get by fastforce
    ultimately show ?thesis
      using 4 inv db by (simp add: claim_tasks_def non_zero_def worker_inv_def phase_ok_def)
  qed (use inv db errors in \<open>auto simp: claim_tasks_def non_zero_def worker_inv_def phase_ok_def\<close>)
qed

text \<open>The two errors of the dispatching loop do not arise from a state that satisfies the invariant.\<close>

lemma dispatch_next_ok:
  assumes "worker_inv s (db, w)" "w_phase w = Dispatching (task # rest)"
  obtains handler where "Registry_get (c_job_name task) (s_registry s) = Some handler" "0 < w_permits w"
    "dispatch_next s (task # rest) w =
       w\<lparr>w_phase := Dispatching rest, w_permits := w_permits w - 1,
         w_flights := w_flights w @ [dispatch_start handler task],
         w_metrics := w_metrics w @ [Incr RUNS_CLAIMED]\<rparr>"
  using assms that by (fastforce simp: worker_inv_def phase_ok_def dispatch_next_def)

lemma dispatch_next_inv:
  assumes inv: "worker_inv s (db, w)" and ph: "w_phase w = Dispatching cs"
  shows "worker_inv s (db, dispatch_next s cs w)"
proof (cases cs)
  case Nil
  then show ?thesis using inv by (simp add: dispatch_next_def worker_inv_def phase_ok_def)
next
  case (Cons task rest)
  from dispatch_next_ok [OF inv, of task rest] ph Cons
  obtain h where h: "0 < w_permits w" "dispatch_next s cs w =
       w\<lparr>w_phase := Dispatching rest, w_permits := w_permits w - 1,
         w_flights := w_flights w @ [dispatch_start h task], w_metrics := w_metrics w @ [Incr RUNS_CLAIMED]\<rparr>"
    by metis
  show ?thesis using inv h ph Cons by (auto simp: worker_inv_def phase_ok_def)
qed

lemma phase_ok_mono:
  "phase_ok s w \<Longrightarrow> w_phase w' = w_phase w \<Longrightarrow> w_permits w \<le> w_permits w' \<Longrightarrow>
   (w_flights w = [] \<Longrightarrow> w_flights w' = []) \<Longrightarrow> phase_ok s w'"
  by (auto simp: phase_ok_def split: phase.splits option.splits)

lemma end_flight_inv:
  assumes "worker_inv s (db, w)" "i < length (w_flights w)" "db_inv db'" "started ms = started (w_metrics w)"
  shows "worker_inv s (db', (end_flight res i w)\<lparr>w_metrics := ms\<rparr>)"
  using assms by (auto simp: worker_inv_def end_flight_def intro: phase_ok_mono [of s w])

lemma end_flight_metrics: "end_flight res i w = (end_flight res i w)\<lparr>w_metrics := w_metrics w\<rparr>"
  by (simp add: end_flight_def)

lemma flight_heartbeat_inv:
  assumes "worker_inv s (db, w)" "i < length (w_flights w)"
    and "db_inv (snd (dispatch_heartbeat acq env t (w_flights w ! i) db))"
  shows "worker_inv s (flight_heartbeat acq env t i (db, w))"
proof (cases "dispatch_heartbeat acq env t (w_flights w ! i) db")
  case (Pair r db')
  then show ?thesis
    using assms end_flight_inv [OF assms(1,2), of db' "w_metrics w"] end_flight_metrics [of _ i w]
    by (cases r) (auto simp: flight_heartbeat_def worker_inv_def intro: phase_ok_mono [of s w])
qed

lemma worker_step_inv:
  assumes "worker_step (sched_step cr) cr to_string s c c'" "worker_inv s c"
  shows "worker_inv s c'"
proof -
  have inv': "db_inv (fst c')"
    using sched_steps_inv [OF worker_step_sched [OF assms(1)]] assms(2) by (cases c) (simp add: worker_inv_def)
  from assms(1,2) inv' show ?thesis
  proof (induction rule: worker_step.induct)
    case (poll w others acq envs db res db')
    then show ?case
      by (cases res) (auto simp: after_select_def worker_inv_def phase_ok_def dest: materialize_errors materialize_started)
  next
    case (recover w acq env db res db')
    then show ?case using recover_leases_errors [of db acq env]
      by (cases res) (auto simp: after_select_def worker_inv_def phase_ok_def dest: recover_leases_started)
  next
    case (claim w db acq env)
    then show ?case using claim_tasks_inv by blast
  next
    case (dispatch w claimed db)
    then show ?case using dispatch_next_inv [of s db w claimed] by simp
  next
    case (heartbeat i w db acq env t)
    then show ?case using flight_heartbeat_inv [of s db w i acq env t] by (simp add: flight_heartbeat_db)
  next
    case (finish i w result db acq env)
    then show ?case
      using end_flight_inv [OF finish(4,1)] finalize_handler_started
      by (fastforce simp: flight_finish_def split: prod.splits)
  next
    case (panic i w db)
    then show ?case using end_flight_inv [OF panic(2,1), of db "w_metrics w"] end_flight_metrics [of _ i w] by simp
  qed (auto simp: report_def shut_down_def after_select_def worker_inv_def
      phase_ok_def split: prod.splits)
qed

interpretation capacity: simulation "worker_step (sched_step cr) cr to_string s" "sched_step cr" fst "worker_inv s"
  for cr to_string s
  by unfold_locales (auto intro: worker_step_inv worker_step_sched)

lemma run_start_inv:
  assumes "run_start mp s = Some w" "int mp \<le> i64_max" "db_inv db"
  shows "worker_inv s (db, w)"
proof -
  have "unat (cfg_max_concurrency (s_config s)) \<le> mp"
    using assms(1) by (simp add: run_start_def Let_def split: if_splits)
  then have "int (unat (cfg_max_concurrency (s_config s))) \<le> i64_max" using assms(2) by linarith
  with assms show ?thesis by (auto simp: run_start_def Let_def worker_inv_def phase_ok_def split: if_splits)
qed

section \<open>One handler under its lease\<close>

lemma row_view_renew: "row_view (renew_update env r) = row_view r"
  by (simp add: row_view_def renew_update_def split: StoredRunState.splits option.splits)

lemma renewed_view: "view_of (renewed_db env rid tok e db) i = view_of db i"
proof -
  have "find (\<lambda>r. r_id r = i) (runs (renewed_db env rid tok e db)) =
      map_option (\<lambda>r. if live_lease env rid tok r then renew_update env r else r) (find (\<lambda>r. r_id r = i) (runs db))"
    by (simp add: renewed_db_def find_update_where)
  then show ?thesis
    by (cases "find (\<lambda>r. r_id r = i) (runs db)") (auto simp: view_of_def row_view_renew)
qed

text \<open>The row says that the token holds the task until \<open>e\<close>.\<close>

definition leased_until :: "'v db \<Rightarrow> RunId \<Rightarrow> LeaseToken \<Rightarrow> timestamp \<Rightarrow> bool" where
  "leased_until db rid tok e \<longleftrightarrow>
     (\<exists>r \<in> set (runs db). r_id r = rid \<and> r_state r = SRunning \<and> r_lease_token r = Some tok \<and> r_lease_expires_at r = Some e)"

lemma renew_lease_outcomes:
  assumes inv: "db_inv db"
  obtains (Fenced) "\<not> has_live_lease env rid tok db" "renew_lease env rid tok db = (Inr RenewFenced, db)"
  | (Renewed) e db' where "has_live_lease env rid tok db" "renew_lease env rid tok db = (Inr (Renewed e), db')"
      "leased_until db' rid tok e" "\<And>i. view_of db' i = view_of db i"
  | (Err) e where "has_live_lease env rid tok db" "renew_lease env rid tok db = (Inl e, db)"
proof (cases "has_live_lease env rid tok db")
  case False
  then show thesis using Fenced inv by (simp add: renew_lease_fenced db_inv_def)
next
  case True
  then obtain r where r: "r \<in> set (runs db)" "live_lease env rid tok r" by (auto simp: has_live_lease_def)
  let ?db = "renewed_db env rid tok (renewed_expiry env r) db"
  have "renew_update env r \<in> set (runs ?db)" using r by (auto simp: renewed_db_def set_update_where)
  then have until: "leased_until ?db rid tok (renewed_expiry env r)"
    unfolding leased_until_def using live_leaseD [OF r(2)]
    by (intro bexI [of _ "renew_update env r"]) (simp_all add: renew_update_def)
  from inv r show thesis
  proof (cases rule: renew_lease_live [of db r env rid tok])
    case Applied
    then show thesis using Renewed [OF True Applied(1) until] renewed_view by blast
  next
    case (Err k)
    then show thesis using that(3) [OF True] by blast
  qed
qed

lemma from_micros_third:
  assumes "1 \<le> unat m"
  shows "3 * duration_total_nanos (heartbeat_interval (from_micros m)) \<le> unat m * 1000"
    and "unat m * 1000 < 3 * duration_total_nanos (heartbeat_interval (from_micros m)) + 3"
proof -
  have third: "duration_total_nanos (duration_div (from_micros m) 3) = unat m * 1000 div 3"
    by (simp add: duration_div_total from_micros_total)
  with assms have "\<not> duration_is_zero (duration_div (from_micros m) 3)"
    by (simp add: duration_is_zero_iff div_eq_0_iff)
  then have hb: "duration_total_nanos (heartbeat_interval (from_micros m)) = unat m * 1000 div 3"
    using third by (simp add: heartbeat_interval_def Let_def)
  show "3 * duration_total_nanos (heartbeat_interval (from_micros m)) \<le> unat m * 1000"
    and "unat m * 1000 < 3 * duration_total_nanos (heartbeat_interval (from_micros m)) + 3"
    unfolding hb by linarith+
qed

section \<open>Health\<close>

text \<open>
  The health report counts the failed cycles since the last good one, up to the largest \<open>u64\<close>, and is
  degraded exactly when the last cycle failed.
\<close>

lemma failures_counted:
  assumes "w_failures w = 0"
  shows "uint (w_failures (fold (report to_string) es w)) =
    min (int (length (takeWhile (\<lambda>e. e \<noteq> None) (rev es)))) (2 ^ 64 - 1)"
proof (induction es rule: rev_induct)
  case Nil
  then show ?case by (simp add: assms)
next
  case (snoc e es)
  then show ?case
    by (cases e) (auto simp: report_def update_health_def Let_def uint_saturating_add)
qed

lemma health_counts_failures:
  assumes "w_failures w = 0" "es \<noteq> []"
  shows "uint (consecutive_failures (w_health (fold (report to_string) es w))) =
      min (int (length (takeWhile (\<lambda>e. e \<noteq> None) (rev es)))) (2 ^ 64 - 1)"
    and "status (w_health (fold (report to_string) es w)) = (if last es = None then Healthy else Degraded)"
proof -
  have "consecutive_failures (w_health (report to_string e v)) = w_failures (report to_string e v)"
    for e and v :: "('a, 'b) worker"
    by (simp add: report_def update_health_def Let_def split: option.splits)
  moreover have "fold (report to_string) es w = report to_string (last es) (fold (report to_string) (butlast es) w)"
    using assms(2) by (cases es rule: rev_cases) simp_all
  ultimately show "uint (consecutive_failures (w_health (fold (report to_string) es w))) =
      min (int (length (takeWhile (\<lambda>e. e \<noteq> None) (rev es)))) (2 ^ 64 - 1)"
    using failures_counted [OF assms(1), of to_string es] by metis
  show "status (w_health (fold (report to_string) es w)) = (if last es = None then Healthy else Degraded)"
    using assms(2) by (cases es rule: rev_cases)
      (auto simp: report_def update_health_def Let_def split: option.splits)
qed

section \<open>A sample worker\<close>

definition sample_scheduler :: "(unit, nat, unit) Scheduler" where
  "sample_scheduler =
     \<lparr>s_pool = (), s_registry = [(sample_name, boxed_handler (\<lambda>v. Inr v) (\<lambda>ctx (v :: nat). ()))],
      s_config =
        \<lparr>cfg_worker_id = sample_worker, cfg_poll_interval = from_secs 1, cfg_reaper_interval = from_secs 20,
         cfg_shutdown_timeout = from_secs 25, cfg_max_concurrency = DEFAULT_MAX_CONCURRENCY\<rparr>,
      s_health = WorkerHealth_default\<rparr>"

definition sample_idle :: "(nat, unit) worker" where
  "sample_idle =
     \<lparr>w_phase = Selecting, w_permits = 16, w_flights = [], w_finished = [], w_cancelled = [], w_failures = 0,
      w_health = WorkerHealth_default, w_metrics = [], w_log = []\<rparr>"

definition sample_claimed :: "nat ClaimedRun" where
  "sample_claimed =
     \<lparr>c_run_id = RunId 2, c_job_id = None, c_job_name = sample_name, c_job_args = 0, c_scheduled_for = 5,
      c_attempt = 1, c_lease_token = LeaseToken 7, c_lease_expires_at = 400, c_lease_duration = LeaseDuration 300\<rparr>"

lemma sample_start: "run_start 1000 sample_scheduler = Some sample_idle"
  by (simp add: run_start_def sample_scheduler_def sample_idle_def DEFAULT_MAX_CONCURRENCY_def)

section \<open>Properties\<close>

text \<open>
  C3: a worker does nothing but the scheduler's operations. Whatever a worker, its handlers and everybody
  else do, and however their steps interleave, the database moves by transactions of the store, so the
  invariant holds throughout and every task follows the abstract state machine.
\<close>

theorem worker_refines_scheduler:
  assumes "db_inv db0" "worker_steps cr to_string s (db0, w0) (db, w)"
  shows "sched_steps cr db0 db \<and> db_inv db \<and> task_step\<^sup>*\<^sup>* (view_of db0 i) (view_of db i)"
proof -
  have steps: "sched_steps cr db0 db" using worker.sim_steps [OF assms(2)] assms(1) by simp
  then show ?thesis using sched_steps_inv [OF steps assms(1)] sched_steps_view [OF steps assms(1)] by simp
qed

theorem worker_refines_scheduler_witness:
  "db_inv (fst (claim_tasks sample_scheduler (Inr ()) (sample_env 200) (sample_db, sample_idle\<lparr>w_phase := Claiming\<rparr>)))"
proof -
  let ?w = "sample_idle\<lparr>w_phase := Claiming\<rparr>"
  have "worker_step (sched_step sample_croner) sample_croner (\<lambda>_. []) sample_scheduler (sample_db, ?w)
      (claim_tasks sample_scheduler (Inr ()) (sample_env 200) (sample_db, ?w))"
    by (rule worker_step.claim) simp
  then have "worker_steps sample_croner (\<lambda>_. []) sample_scheduler (sample_db, ?w)
      (fst (claim_tasks sample_scheduler (Inr ()) (sample_env 200) (sample_db, ?w)),
       snd (claim_tasks sample_scheduler (Inr ()) (sample_env 200) (sample_db, ?w)))"
    by simp
  from worker_refines_scheduler [OF sample_inv this] show ?thesis by blast
qed

text \<open>
  C11: a worker never claims what it cannot run. From the start of a worker on, permits and running
  handlers add up to \<open>max_concurrency\<close>; every handler ever started is running or has ended with its
  token cancelled, and after the exit none is running; every claimed task that is up for dispatch finds a permit and a
  registered handler and is started; and the errors a cycle reports come from the database, the pool or
  the cron library: the \<open>Invariant\<close> errors of the loop and of the operations it calls do not occur.
  (\<open>tokio\<close> refuses semaphores above \<open>Semaphore::MAX_PERMITS\<close>, which is far below \<open>i64::MAX\<close>.)
\<close>

theorem worker_capacity:
  assumes "run_start max_permits s = Some w0" "int max_permits \<le> i64_max" "db_inv db0"
    and "worker_steps cr to_string s (db0, w0) (db, w)"
  shows "w_permits w + length (w_flights w) = unat (cfg_max_concurrency (s_config s)) \<and>
    length (filter (\<lambda>m. metric_name m = RUNS_CLAIMED) (w_metrics w)) = length (w_flights w) + length (w_cancelled w) \<and>
    (w_phase w = Exited \<longrightarrow> w_flights w = []) \<and>
    (\<forall>task rest. w_phase w = Dispatching (task # rest) \<longrightarrow>
       (\<exists>handler. Registry_get (c_job_name task) (s_registry s) = Some handler \<and>
          w_flights (dispatch_next s (task # rest) w) = w_flights w @ [dispatch_start handler task] \<and>
          w_phase (dispatch_next s (task # rest) w) = Dispatching rest)) \<and>
    (\<forall>e. w_phase w = Reporting (Some e) \<longrightarrow> (\<exists>x. e = Database x) \<or> (\<exists>x. e = Pool x) \<or> (\<exists>x. e = Cron x))"
proof -
  have inv: "worker_inv s (db, w)" using capacity.inv_steps [OF assms(4) run_start_inv [OF assms(1-3)]] .
  have "\<exists>handler. Registry_get (c_job_name task) (s_registry s) = Some handler \<and>
          w_flights (dispatch_next s (task # rest) w) = w_flights w @ [dispatch_start handler task] \<and>
          w_phase (dispatch_next s (task # rest) w) = Dispatching rest"
    if "w_phase w = Dispatching (task # rest)" for task rest
    by (rule dispatch_next_ok [OF inv that]) simp
  moreover have "(\<exists>x. e = Database x) \<or> (\<exists>x. e = Pool x) \<or> (\<exists>x. e = Cron x)"
    if "w_phase w = Reporting (Some e)" for e
    using inv that by (auto simp: worker_inv_def phase_ok_def environmental_def split: SchedulerError.splits)
  moreover have "w_phase w = Exited \<longrightarrow> w_flights w = []" using inv by (auto simp: worker_inv_def phase_ok_def)
  ultimately show ?thesis using inv by (simp add: worker_inv_def started_def)
qed

theorem worker_capacity_witness:
  "let w = after_select (fst (recover_leases (Inr ()) (sample_env 200) sample_db)) sample_idle
   in w_permits w + length (w_flights w) = 16"
proof -
  let ?r = "recover_leases (Inr ()) (sample_env 200) sample_db"
  have "worker_step (sched_step sample_croner) sample_croner (\<lambda>_. []) sample_scheduler (sample_db, sample_idle)
      (snd ?r, after_select (fst ?r) sample_idle)"
    by (rule worker_step.recover [where res = "fst ?r" and acq = "Inr ()" and env = "sample_env 200"])
      (simp_all add: sample_idle_def)
  then have steps: "worker_steps sample_croner (\<lambda>_. []) sample_scheduler (sample_db, sample_idle)
      (snd ?r, after_select (fst ?r) sample_idle)"
    by (rule r_into_rtranclp)
  have "int 1000 \<le> i64_max" by (simp add: i64_max_def)
  from worker_capacity [OF sample_start this sample_inv steps] show ?thesis
    by (simp add: Let_def sample_scheduler_def DEFAULT_MAX_CONCURRENCY_def)
qed



text \<open>
  C33: heartbeats are frequent enough. For every lease duration of the configuration type the interval
  between renewals is positive, and three of them fit into the lease with less than three nanoseconds
  to spare: two renewals may fail before the lease runs out.
\<close>

theorem heartbeat_bounds:
  assumes "LeaseDuration_inv l"
  shows "0 < duration_total_nanos (heartbeat_interval (LeaseDuration_as_duration l)) \<and>
    3 * duration_total_nanos (heartbeat_interval (LeaseDuration_as_duration l)) \<le> duration_total_nanos (LeaseDuration_as_duration l) \<and>
    duration_total_nanos (LeaseDuration_as_duration l) <
      3 * duration_total_nanos (heartbeat_interval (LeaseDuration_as_duration l)) + 3"
proof -
  let ?m = "i64_unsigned_abs (lease_micros l)"
  have "in_i64 (lease_micros l)" using assms by (simp add: LeaseDuration_inv_def int_range_defs)
  then have "uint ?m = lease_micros l" using assms by (simp add: uint_i64_unsigned_abs LeaseDuration_inv_def)
  then have "1 \<le> uint ?m" using assms by (simp add: LeaseDuration_inv_def)
  then have m: "1 \<le> unat ?m" by (metis nat_mono nat_one_as_int unat_eq_nat_uint)
  show ?thesis
    using from_micros_third [OF m] m by (simp add: LeaseDuration_as_duration_def from_micros_total)
qed

theorem heartbeat_bounds_witness:
  "0 < duration_total_nanos (heartbeat_interval (LeaseDuration_as_duration (LeaseDuration 1)))"
proof -
  have "LeaseDuration_inv (LeaseDuration 1)" by (simp add: LeaseDuration_inv_def i64_max_def)
  from heartbeat_bounds [OF this] show ?thesis by blast
qed

text \<open>
  A failure whose text has U+0000 is not recorded: the statement fails, \<open>finalize_handler\<close> only logs that,
  and the task stays running until its lease expires.
\<close>

lemma unstorable_error_lost:
  assumes "\<not> pg_text (JobError_to_string error)"
  shows "finalize_handler acq env others claimed (Inl error) db = ([], db)"
  by (simp add: finalize_handler_def fail_run_unstorable [OF assms] split: sum.splits)

text \<open>
  C34: a payload that the handler cannot read fails its task for good. When the registered handler's
  argument type does not deserialize from the stored payload, the handler's code is not run: the only
  result of the dispatched future is the deserialization error, and finalization under the live lease
  marks the task failed with that error's text, whatever attempts are left; but when the text has U+0000, or
  the client cannot read the task's \<open>available_at\<close> that the statement returns, nothing is recorded and the task
  stays running until its lease expires.
\<close>

theorem bad_payload_fails:
  assumes "Registry_register from_value (c_job_name claimed) handler reg = Inr reg'"
    and "Registry_get (c_job_name claimed) reg' = Some h" "from_value (c_job_args claimed) = Inl e"
    and "resolves (fl_future (dispatch_start h claimed)) result"
    and "db_inv db" "env_ok env" "r \<in> set (runs db)" "live_lease env (c_run_id claimed) (c_lease_token claimed) r"
  shows "if pg_text e \<and> chrono_timestamp (r_available_at r)
    then (\<exists>db'. finalize_handler (Inr ()) env others claimed result db = ([Incr RUNS_FAILED], db') \<and>
      view_of db' (c_run_id claimed) = TDone SFailed \<and>
      (\<exists>r' \<in> set (runs db'). r_id r' = c_run_id claimed \<and> r_last_error r' = Some e))
    else finalize_handler (Inr ()) env others claimed result db = ([], db)"
proof (cases "pg_text e \<and> chrono_timestamp (r_available_at r)")
  case False
  have sch: "schema_ok db" using assms(5) by (simp add: db_inv_def)
  have "h = boxed_handler from_value handler" using register_keeps(1) [OF assms(1), of "c_job_name claimed"] assms(2) by simp
  then have result: "result = Inl (JobError_from e)"
    using assms(3,4) by (simp add: dispatch_start_def boxed_handler_def resolves_def)
  have "finalize_handler (Inr ()) env others claimed result db = ([], db)"
  proof (cases "pg_text e")
    case True
    then have "fail_run env others (c_run_id claimed) (c_lease_token claimed) e False db = (Inl decode_error, db)"
      using False failed_schema(1) [OF sch assms(6) True, where b = False]
      by (intro fail_run_unreadable [OF sch assms(7,8)]) (simp_all add: fail_available_def)
    then show ?thesis by (simp add: finalize_handler_def result job_error_defs)
  qed (simp add: result unstorable_error_lost job_error_defs)
  then show ?thesis unfolding if_not_P [OF False] .
next
  case stored: True
  have "\<exists>db'. finalize_handler (Inr ()) env others claimed result db = ([Incr RUNS_FAILED], db') \<and>
    view_of db' (c_run_id claimed) = TDone SFailed \<and>
    (\<exists>r' \<in> set (runs db'). r_id r' = c_run_id claimed \<and> r_last_error r' = Some e)"
  proof (intro exI conjI)
    let ?db = "failed_db env (c_run_id claimed) (c_lease_token claimed) e False db"
    have "h = boxed_handler from_value handler" using register_keeps(1) [OF assms(1), of "c_job_name claimed"] assms(2) by simp
    then have res: "result = Inl (JobError_from e)"
      using assms(3,4) by (simp add: dispatch_start_def boxed_handler_def resolves_def)
    have run: "fail_run env others (c_run_id claimed) (c_lease_token claimed) e False db = (Inr FlFailed, ?db)"
      using fail_run_succeeds [OF assms(5-8), of False e others] stored by (simp add: fail_outcome_def fail_available_def)
    then show "finalize_handler (Inr ()) env others claimed result db = ([Incr RUNS_FAILED], ?db)"
      by (simp add: finalize_handler_def res job_error_defs)
    have "db_inv ?db" using fail.live_inv [OF assms(5) has_live_leaseI [OF assms(7,8)], where others = others and err = e and retryable = False] run by simp
    then have "view_of ?db (c_run_id claimed) = row_view (fail_update env False e r)"
      by (intro closed_view [OF _ assms(7,8)]) (simp_all add: failed_db_def db_inv_def)
    then show "view_of ?db (c_run_id claimed) = TDone SFailed" by (simp add: fail_update_def)
    have "fail_update env False e r \<in> set (runs ?db)"
      using assms(7,8) by (auto simp: failed_db_def set_update_where)
    then show "\<exists>r' \<in> set (runs ?db). r_id r' = c_run_id claimed \<and> r_last_error r' = Some e"
      using live_leaseD(1) [OF assms(8)] by (intro bexI [of _ "fail_update env False e r"]) (simp_all add: fail_update_def)
  qed
  then show ?thesis unfolding if_P [OF stored] .
qed

theorem bad_payload_fails_witness:
  "\<exists>db'. finalize_handler (Inr ()) (sample_env 200) id sample_claimed (Inl (JobError_from [])) sample_db = ([Incr RUNS_FAILED], db') \<and>
     view_of db' (RunId 2) = TDone SFailed"
proof -
  let ?de = "\<lambda>v :: nat. Inl [] :: rust_string + unit" and ?user = "\<lambda>(ctx :: JobContext) (u :: unit). ()"
  let ?h = "boxed_handler ?de ?user"
  have reg: "Registry_register ?de (c_job_name sample_claimed) ?user [] = Inr [(c_job_name sample_claimed, ?h)]"
    by (simp add: Registry_register_def)
  have get: "Registry_get (c_job_name sample_claimed) [(c_job_name sample_claimed, ?h)] = Some ?h"
    by (simp add: Registry_get_def)
  have res: "resolves (fl_future (dispatch_start ?h sample_claimed)) (Inl (JobError_from []))"
    by (simp add: resolves_def dispatch_start_def boxed_handler_def)
  have live: "live_lease (sample_env 200) (c_run_id sample_claimed) (c_lease_token sample_claimed) sample_running"
    using sample_live(2) by (simp add: sample_claimed_def)
  have "chrono_timestamp (r_available_at sample_running)"
    by (simp add: sample_running_def sample_task_def chrono_timestamp_def)
  with bad_payload_fails [OF reg get refl res sample_inv sample_200 sample_live(1) live]
  show ?thesis by (auto simp: sample_claimed_def)
qed

end
