(* ===== verification/Cycle.thy ===== *)
theory Cycle
  imports Worker
begin

text \<open>
  A whole cycle of the worker, from the claim to the recorded completion of a task: the run of the
  worker's own steps that a healthy environment allows, whatever relation \<open>R\<close> stands for the other sessions.
  It composes the claim, the dispatching loop, the health report and the finalization of a handler.
\<close>

section \<open>The dispatching loop\<close>

text \<open>The loop starts a handler for every claimed task, keeps the running ones, and ends without error.\<close>

lemma dispatch_loop:
  assumes "worker_inv s (db, w)" "w_phase w = Dispatching cs"
  shows "\<exists>w'. (worker_step R cr to_string s)\<^sup>*\<^sup>* (db, w) (db, w') \<and> worker_inv s (db, w') \<and>
    w_phase w' = Reporting None \<and> set (w_flights w) \<subseteq> set (w_flights w') \<and>
    (\<forall>c \<in> set cs. \<exists>h. Registry_get (c_job_name c) (s_registry s) = Some h \<and>
       dispatch_start h c \<in> set (w_flights w'))"
  using assms
proof (induction cs arbitrary: w)
  case Nil
  let ?w = "dispatch_next s [] w"
  have "worker_step R cr to_string s (db, w) (db, ?w)" using Nil.prems(2) by (rule worker_step.dispatch)
  moreover have "worker_inv s (db, ?w)" by (rule dispatch_next_inv [OF Nil.prems])
  ultimately show ?case by (intro exI [of _ ?w]) (auto simp: dispatch_next_def)
next
  case (Cons c cs)
  let ?w = "dispatch_next s (c # cs) w"
  have step: "worker_step R cr to_string s (db, w) (db, ?w)" using Cons.prems(2) by (rule worker_step.dispatch)
  have inv: "worker_inv s (db, ?w)" by (rule dispatch_next_inv [OF Cons.prems])
  obtain h where h: "Registry_get (c_job_name c) (s_registry s) = Some h" "w_phase ?w = Dispatching cs"
      "w_flights ?w = w_flights w @ [dispatch_start h c]"
    by (rule dispatch_next_ok [OF Cons.prems]) simp
  from Cons.IH [OF inv h(2)] obtain w' where w': "(worker_step R cr to_string s)\<^sup>*\<^sup>* (db, ?w) (db, w')"
      "worker_inv s (db, w')" "w_phase w' = Reporting None" "set (w_flights ?w) \<subseteq> set (w_flights w')"
      "\<forall>c \<in> set cs. \<exists>h. Registry_get (c_job_name c) (s_registry s) = Some h \<and>
         dispatch_start h c \<in> set (w_flights w')"
    by blast
  have "(worker_step R cr to_string s)\<^sup>*\<^sup>* (db, w) (db, w')" using step w'(1) by (rule converse_rtranclp_into_rtranclp)
  with w' h show ?case by (intro exI [of _ w']) auto
qed

text \<open>A cycle without error ends at \<open>select!\<close> with a healthy report.\<close>

lemma report_healthy:
  assumes "w_phase w = Reporting None"
  shows "worker_step R cr to_string s (db, w) (db, report to_string None w)"
    and "w_phase (report to_string None w) = Selecting" "status (w_health (report to_string None w)) = Healthy"
    and "w_flights (report to_string None w) = w_flights w"
  using worker_step.report [OF assms] by (simp_all add: report_def update_health_def)

section \<open>The claim\<close>

lemma claim_tasks_Ok:
  assumes inv: "worker_inv s (db, w)" and env: "env_ok env" and p: "0 < w_permits w"
    and wid: "identifier_ok (WorkerId_as_str (cfg_worker_id (s_config s)))"
    and ctexts: "claim_texts_ok (Registry_names (s_registry s)) (cfg_worker_id (s_config s))"
    and cenv: "claim_env_ok env (claim_candidates env (Registry_names (s_registry s)) (w_permits w) db) db"
    and read: "claim_readable env (claim_candidates env (Registry_names (s_registry s)) (w_permits w) db)"
  obtains cs where "claim_tasks s (Inr ()) env (db, w) =
      (claimed_db env (Registry_names (s_registry s)) (w_permits w) (cfg_worker_id (s_config s)) db,
       w\<lparr>w_phase := Dispatching cs\<rparr>)"
    "list_all2 (\<lambda>row c. decode_claimed row = Inr c)
      (claimed_rows env (Registry_names (s_registry s)) (w_permits w) db) cs"
proof -
  let ?limit = "of_nat (w_permits w) :: usize" and ?names = "Registry_names (s_registry s)"
  note lim = permits_limit [OF inv]
  have nz: "?limit \<noteq> 0" using lim(1) p by (metis unat_0 less_irrefl)
  have db: "db_inv db" using inv by (simp add: worker_inv_def)
  obtain cs where "claim_batch env (cfg_worker_id (s_config s)) ?names ?limit db =
      (Inr cs, claimed_db env ?names (w_permits w) (cfg_worker_id (s_config s)) db)"
      "list_all2 (\<lambda>row c. decode_claimed row = Inr c) (claimed_rows env ?names (w_permits w) db) cs"
    using claim_batch_Ok [OF db env wid lim(2), of ?names] cenv ctexts read unfolding lim(1) by blast
  then show thesis using that nz by (simp add: claim_tasks_def non_zero_def conn_def)
qed

lemma claimed_row_live:
  assumes "r \<in> set (claim_candidates env names n db)" "env_clock env' WhereClock (r_id r) < claim_expiry env r"
  shows "claim_update env w r \<in> set (runs (claimed_db env names n w db))"
    and "live_lease env' (r_id r) (LeaseToken (env_token env (r_id r))) (claim_update env w r)"
  using assms claim_candidatesD(1) [OF assms(1)]
  by (auto simp: claimed_db_def set_update_where live_lease_def claim_update_def)

section \<open>The completion\<close>

lemma finish_completes:
  assumes inv: "db_inv db" and env: "env_ok env"
    and r: "r \<in> set (runs db)" "live_lease env (c_run_id c) (c_lease_token c) r"
    and f: "i < length (w_flights w)" "fl_claimed (w_flights w ! i) = c" "fl_future (w_flights w ! i) = UserFuture fut"
  shows "\<exists>db'. worker_step R cr to_string s (db, w) (db', (end_flight (Inr ()) i w)\<lparr>w_metrics := w_metrics w @ [Incr RUNS_COMPLETED]\<rparr>) \<and>
    view_of db' (c_run_id c) = TDone SCompleted"
proof -
  let ?db = "finalized_db env (c_run_id c) (c_lease_token c) OutCompleted db"
  have run: "finalize_run env id (c_run_id c) (c_lease_token c) OutCompleted db = (Inr FinApplied, ?db)"
    by (rule finalize_run_succeeds [OF inv env r]) simp
  have "resolves (fl_future (w_flights w ! i)) (Inr ())" using f(3) by (simp add: resolves_def)
  from worker_step.finish [OF f(1) this, of R id cr to_string s db "Inr ()" env]
  have step: "worker_step R cr to_string s (db, w) (?db, (end_flight (Inr ()) i w)\<lparr>w_metrics := w_metrics w @ [Incr RUNS_COMPLETED]\<rparr>)"
    by (simp add: flight_finish_def finalize_handler_def f(2) run)
  then show ?thesis using completed_view [OF inv env r] by (intro exI [of _ ?db]) simp
qed

text \<open>From the claim back to \<open>select!\<close>: every selected task is then running under the returned lease.\<close>

lemma claim_cycle:
  assumes inv: "worker_inv s (db, w)" and ph: "w_phase w = Claiming" and p: "0 < w_permits w" and env: "env_ok env"
    and wid: "identifier_ok (WorkerId_as_str (cfg_worker_id (s_config s)))"
    and ctexts: "claim_texts_ok (Registry_names (s_registry s)) (cfg_worker_id (s_config s))"
    and cenv: "claim_env_ok env (claim_candidates env (Registry_names (s_registry s)) (w_permits w) db) db"
    and read: "claim_readable env (claim_candidates env (Registry_names (s_registry s)) (w_permits w) db)"
    and r: "r \<in> set (claim_candidates env (Registry_names (s_registry s)) (w_permits w) db)"
  defines "db' \<equiv> claimed_db env (Registry_names (s_registry s)) (w_permits w) (cfg_worker_id (s_config s)) db"
  obtains w' c h where "(worker_step R cr to_string s)\<^sup>*\<^sup>* (db, w) (db', w')" "db_inv db'" "w_phase w' = Selecting"
    "status (w_health w') = Healthy" "Registry_get (r_job_name r) (s_registry s) = Some h"
    "dispatch_start h c \<in> set (w_flights w')" "c_run_id c = r_id r" "c_job_args c = r_job_args r"
    "c_lease_token c = LeaseToken (env_token env (r_id r))"
proof -
  let ?names = "Registry_names (s_registry s)"
  have sch: "schema_ok db" using inv by (simp add: worker_inv_def db_inv_def)
  obtain cs where cs: "claim_tasks s (Inr ()) env (db, w) = (db', w\<lparr>w_phase := Dispatching cs\<rparr>)"
      "list_all2 (\<lambda>row c. decode_claimed row = Inr c) (claimed_rows env ?names (w_permits w) db) cs"
    unfolding db'_def by (rule claim_tasks_Ok [OF inv env p wid ctexts cenv read])
  have step: "worker_step R cr to_string s (db, w) (db', w\<lparr>w_phase := Dispatching cs\<rparr>)"
    using worker_step.claim [OF ph, of R cr to_string s db "Inr ()" env] by (simp add: cs(1))
  have inv': "worker_inv s (db', w\<lparr>w_phase := Dispatching cs\<rparr>)"
    using claim_tasks_inv [OF inv, of "Inr ()" env] by (simp add: cs(1))
  from dispatch_loop [OF inv', of cs R cr to_string] obtain w2 where w2:
      "(worker_step R cr to_string s)\<^sup>*\<^sup>* (db', w\<lparr>w_phase := Dispatching cs\<rparr>) (db', w2)" "w_phase w2 = Reporting None"
      "\<forall>c \<in> set cs. \<exists>h. Registry_get (c_job_name c) (s_registry s) = Some h \<and> dispatch_start h c \<in> set (w_flights w2)"
    by auto
  have steps: "(worker_step R cr to_string s)\<^sup>*\<^sup>* (db, w) (db', report to_string None w2)"
    using step w2(1) report_healthy(1) [OF w2(2), of R cr to_string s db']
    by (meson converse_rtranclp_into_rtranclp rtranclp.rtrancl_into_rtrancl)
  have "r_id r \<in> c_run_id ` set cs" using claimed_ids(1) [OF cs(2) sch] r by blast
  then obtain c where c: "c \<in> set cs" "c_run_id c = r_id r" by auto
  obtain r' where r': "r' \<in> set (claim_candidates env ?names (w_permits w) db)" "c_run_id c = r_id r'"
      "c_job_name c = r_job_name r'" "c_job_args c = r_job_args r'"
      "c_lease_token c = LeaseToken (env_token env (r_id r'))"
    by (rule claimed_decoded [OF cs(2) sch c(1)])
  have "r' = r"
    using run_eqI [OF sch claim_candidatesD(1) [OF r'(1)] claim_candidatesD(1) [OF r]] r'(2) c(2) by simp
  moreover obtain h where "Registry_get (c_job_name c) (s_registry s) = Some h"
      "dispatch_start h c \<in> set (w_flights (report to_string None w2))"
    using w2(3) c(1) report_healthy(4) [OF w2(2), of to_string] by auto
  ultimately show thesis
    using that [OF steps _ report_healthy(2,3) [OF w2(2)]] inv' r' c(2) by (simp add: worker_inv_def)
qed

section \<open>Properties\<close>

text \<open>
  C12: a worker runs a claimable task to completion on its own. When a worker, at any point of a life among
  other sessions, is about to claim with a permit to spare in a healthy environment, with names that PostgreSQL
  can store and rows that the client can read back, then for every task that the claim selects, if its payload
  deserializes and its handler succeeds before the lease expires, the worker's own steps, without a single one
  of another session, claim the task, start its handler, record its completion, count it, and report a healthy
  cycle, back at \<open>select!\<close>.
\<close>

theorem claimed_task_completes:
  assumes "run_start max_permits s = Some w0" "int max_permits \<le> i64_max" "db_inv db0"
    and "worker_steps cr to_string s (db0, w0) (db, w)" "w_phase w = Claiming" "0 < w_permits w"
    and "env_ok env" "identifier_ok (WorkerId_as_str (cfg_worker_id (s_config s)))"
    and "claim_env_ok env (claim_candidates env (Registry_names (s_registry s)) (w_permits w) db) db"
    and "r \<in> set (claim_candidates env (Registry_names (s_registry s)) (w_permits w) db)"
    and "Registry_get (r_job_name r) (s_registry s) = Some h" "\<And>ctx. \<exists>fut. h ctx (r_job_args r) = UserFuture fut"
    and "env_ok env'" "env_clock env' WhereClock (r_id r) < claim_expiry env r"
    and "claim_texts_ok (Registry_names (s_registry s)) (cfg_worker_id (s_config s))"
    and "claim_readable env (claim_candidates env (Registry_names (s_registry s)) (w_permits w) db)"
  shows "\<exists>db' w'. own_steps cr to_string s (db, w) (db', w') \<and> view_of db' (r_id r) = TDone SCompleted \<and>
    last (w_metrics w') = Incr RUNS_COMPLETED \<and> status (w_health w') = Healthy \<and> w_phase w' = Selecting"
proof -
  have inv: "worker_inv s (db, w)" by (rule capacity.inv_steps [OF assms(4) run_start_inv [OF assms(1-3)]])
  let ?db = "claimed_db env (Registry_names (s_registry s)) (w_permits w) (cfg_worker_id (s_config s)) db"
  obtain w2 c h' where w2: "own_steps cr to_string s (db, w) (?db, w2)" "db_inv ?db" "w_phase w2 = Selecting"
      "status (w_health w2) = Healthy" "Registry_get (r_job_name r) (s_registry s) = Some h'"
      "dispatch_start h' c \<in> set (w_flights w2)" "c_run_id c = r_id r" "c_job_args c = r_job_args r"
      "c_lease_token c = LeaseToken (env_token env (r_id r))"
    by (rule claim_cycle [OF inv assms(5-8,15,9,16,10)])
  have h: "h' = h" using w2(5) assms(11) by simp
  obtain i where i: "i < length (w_flights w2)" "w_flights w2 ! i = dispatch_start h c"
    using w2(6) h by (auto simp: in_set_conv_nth)
  obtain fut where fut: "h (dispatch_context c) (r_job_args r) = UserFuture fut" using assms(12) by blast
  have live: "live_lease env' (c_run_id c) (c_lease_token c) (claim_update env (cfg_worker_id (s_config s)) r)"
    using claimed_row_live(2) [OF assms(10,14)] w2(7,9) by simp
  obtain db' where db': "worker_step (\<lambda>_ _. False) cr to_string s (?db, w2)
      (db', (end_flight (Inr ()) i w2)\<lparr>w_metrics := w_metrics w2 @ [Incr RUNS_COMPLETED]\<rparr>)" "view_of db' (r_id r) = TDone SCompleted"
    using finish_completes [OF w2(2) assms(13) claimed_row_live(1) [OF assms(10,14)] live i(1), of fut "\<lambda>_ _. False" cr to_string s]
      i(2) fut w2(7,8) by (auto simp: dispatch_start_def)
  show ?thesis
    using rtranclp.rtrancl_into_rtrancl [OF w2(1) db'(1)] db'(2) w2(3,4)
    by (intro exI conjI) (assumption | simp add: end_flight_def)+
qed

lemma recover_leases_none:
  assumes "db_inv db" "env_ok env" "\<forall>r \<in> set (runs db). \<not> lease_expired env r"
  shows "recover_leases (Inr ()) env db = (Inr [], db)"
proof -
  have none: "recover_candidates env n db = []" for n
  proof -
    have "filter (\<lambda>r. lease_expired env r \<and> \<not> env_run_locked env (r_id r)) (runs db) = []"
      using assms(3) by (simp add: filter_empty_conv)
    then show ?thesis by (simp add: recover_candidates_def select_ordered_def)
  qed
  have "recovered_db env n db = db" for n
    by (simp add: recovered_db_def none update_where_none)
  then show ?thesis
    using recover_expired_succeeds [OF assms(1,2), of 1000]
    by (simp add: recover_leases_def conn_def recovery_summary_def none i64_max_def)
qed

lemma sample_no_expired:
  "recover_leases (Inr ()) (sample_env 200) sample_db = (Inr [], sample_db)"
  "recover_leases (Inr ()) (sample_env 200) sample_db2 = (Inr [], sample_db2)"
proof -
  have "\<not> lease_expired (sample_env 200) r" if "r \<in> set (runs sample_db) \<or> r \<in> set (runs sample_db2)" for r
    using that by (auto simp: lease_expired_def sample_db_def sample_db2_def sample_rows)
  then show "recover_leases (Inr ()) (sample_env 200) sample_db = (Inr [], sample_db)"
    "recover_leases (Inr ()) (sample_env 200) sample_db2 = (Inr [], sample_db2)"
    using recover_leases_none [OF sample_inv sample_200] recover_leases_none [OF sample_inv2 sample_200] by blast+
qed

theorem claimed_task_completes_witness:
  "\<exists>db' w'. own_steps sample_croner (\<lambda>_. []) sample_scheduler
      (sample_db, after_select (Inr []) sample_idle) (db', w') \<and> view_of db' (RunId 1) = TDone SCompleted"
proof -
  let ?w = "after_select (Inr []) sample_idle" and ?names = "Registry_names (s_registry sample_scheduler)"
  have "worker_step (sched_step sample_croner) sample_croner (\<lambda>_. []) sample_scheduler (sample_db, sample_idle) (sample_db, ?w)"
    by (rule worker_step.recover [OF _ sample_no_expired(1)]) (simp add: sample_idle_def)
  then have steps: "worker_steps sample_croner (\<lambda>_. []) sample_scheduler (sample_db, sample_idle) (sample_db, ?w)"
    by (rule r_into_rtranclp)
  have w: "w_phase ?w = Claiming" "0 < w_permits ?w" "w_permits ?w = 16"
    by (simp_all add: after_select_def sample_idle_def)
  have names: "?names = [JobName_as_str sample_name]" by (simp add: Registry_names_def sample_scheduler_def)
  then have cand: "claim_candidates (sample_env 200) ?names (w_permits ?w) sample_db = [sample_pending]"
    by (simp add: sample_candidates w(3))
  have wid: "identifier_ok (WorkerId_as_str (cfg_worker_id (s_config sample_scheduler)))"
    using sample_worker_ok by (simp add: sample_scheduler_def)
  have ctexts: "claim_texts_ok ?names (cfg_worker_id (s_config sample_scheduler))"
    using sample_claim_texts by (simp add: names) (simp add: sample_scheduler_def)
  have cenv: "claim_env_ok (sample_env 200) (claim_candidates (sample_env 200) ?names (w_permits ?w) sample_db) sample_db"
    unfolding cand by (rule sample_claim_env(1))
  have read: "claim_readable (sample_env 200) (claim_candidates (sample_env 200) ?names (w_permits ?w) sample_db)"
    unfolding cand by (rule sample_readable)
  have r: "sample_pending \<in> set (claim_candidates (sample_env 200) ?names (w_permits ?w) sample_db)" by (simp add: cand)
  have h: "Registry_get (r_job_name sample_pending) (s_registry sample_scheduler) =
      Some (boxed_handler (\<lambda>v. Inr v) (\<lambda>ctx (v :: nat). ()))"
    by (simp add: Registry_get_def sample_scheduler_def sample_pending_def sample_task_def)
  have live: "env_clock (sample_env 200) WhereClock (r_id sample_pending) < claim_expiry (sample_env 200) sample_pending"
    by (simp add: claim_expiry_def sample_pending_def sample_task_def sample_lease_def)
  have fut: "\<exists>fut. boxed_handler (\<lambda>v. Inr v) (\<lambda>ctx (v :: nat). ()) ctx (r_job_args sample_pending) = UserFuture fut" for ctx
    by (simp add: boxed_handler_def)
  have cap: "int 1000 \<le> i64_max" by (simp add: i64_max_def)
  have "r_id sample_pending = RunId 1" by (simp add: sample_pending_def sample_task_def)
  then show ?thesis
    using claimed_task_completes [OF sample_start cap sample_inv steps w(1,2) sample_200 wid cenv r h fut sample_200 live ctexts read]
    by auto
qed

end
