(* ===== verification/Fleet.thy ===== *)
theory Fleet
  imports Cycle
begin

text \<open>
  Several workers on one database: the interleaving of their step relations, with any other session's
  transactions among them (the rule \<open>others\<close> of a worker). Each worker of a fleet runs as if it were alone
  among other sessions, and no lease is ever in two hands.
\<close>

section \<open>Interleaving\<close>

definition lease_tokens :: "'v db \<Rightarrow> LeaseToken set" where
  "lease_tokens db = a_lease_token ` set (attempts db)"

text \<open>
  The third component of a state has the tokens drawn so far. \<open>gen_random_uuid\<close> draws a token that was not
  drawn before; the database itself only refuses a token that is still in the table of attempts.
\<close>

inductive fleet_step ::
    "'c croner \<Rightarrow> (SchedulerError \<Rightarrow> rust_string) \<Rightarrow> ('i \<Rightarrow> ('p, 'v, 'f) Scheduler) \<Rightarrow>
       'v db \<times> ('i \<Rightarrow> ('v, 'f) worker) \<times> LeaseToken set \<Rightarrow> 'v db \<times> ('i \<Rightarrow> ('v, 'f) worker) \<times> LeaseToken set \<Rightarrow> bool"
  for cr :: "'c croner" and to_string :: "SchedulerError \<Rightarrow> rust_string" and ss :: "'i \<Rightarrow> ('p, 'v, 'f) Scheduler" where
  worker: "worker_step (sched_step cr) cr to_string (ss i) (db, ws i) (db', w') \<Longrightarrow>
    (lease_tokens db' - lease_tokens db) \<inter> drawn = {} \<Longrightarrow>
    fleet_step cr to_string ss (db, ws, drawn) (db', ws(i := w'), drawn \<union> lease_tokens db')"

abbreviation fleet_steps where
  "fleet_steps cr to_string ss \<equiv> (fleet_step cr to_string ss)\<^sup>*\<^sup>*"

lemma fleet_quiet:
  "worker_step (sched_step cr) cr to_string (ss i) (db, ws i) (db, w') \<Longrightarrow>
   fleet_step cr to_string ss (db, ws, drawn) (db, ws(i := w'), drawn \<union> lease_tokens db)"
  by (rule fleet_step.worker) simp_all

section \<open>Each worker runs as if alone\<close>

lemma sched_steps_others: "sched_steps cr db db' \<Longrightarrow> worker_steps cr to_string s (db, w) (db', w)"
  by (induction rule: rtranclp_induct) (auto intro: rtranclp.rtrancl_into_rtrancl worker_step.others)

interpretation member: simulation "fleet_step cr to_string ss" "worker_step (sched_step cr) cr to_string (ss i)"
    "\<lambda>(db, ws, drawn). (db, ws i)" "\<lambda>_. True" for cr to_string ss i
proof
  fix c c' assume "fleet_step cr to_string ss c c'"
  then show "worker_steps cr to_string (ss i) (case c of (db, ws, drawn) \<Rightarrow> (db, ws i))
      (case c' of (db, ws, drawn) \<Rightarrow> (db, ws i))"
  proof cases
    case (worker k db ws db' w' drawn)
    then show ?thesis
      using sched_steps_others [OF worker_step_sched [OF worker(3)], of to_string "ss i" "ws i"]
      by (cases "k = i") auto
  qed
qed simp

section \<open>The tokens a worker holds\<close>

definition held :: "('v, 'f) worker \<Rightarrow> LeaseToken list" where
  "held w = map (\<lambda>f. c_lease_token (fl_claimed f)) (w_flights w) @
     (case w_phase w of Dispatching cs \<Rightarrow> map c_lease_token cs | _ \<Rightarrow> [])"

lemma mset_remove_nth: "i < length xs \<Longrightarrow> mset (map f (take i xs @ drop (Suc i) xs)) \<subseteq># mset (map f xs)"
proof -
  assume "i < length xs"
  then have "mset (map f xs) = mset (map f (take i xs @ xs ! i # drop (Suc i) xs))" by (simp only: id_take_nth_drop [symmetric])
  then show ?thesis by simp
qed

lemma distinct_mset_mono:
  assumes "mset xs \<subseteq># mset ys" "distinct ys"
  shows "distinct xs"
proof -
  obtain zs where "mset ys = mset (xs @ zs)" using assms(1) by (metis ex_mset mset_append mset_subset_eq_exists_conv)
  then have "distinct (xs @ zs)" using assms(2) mset_eq_imp_distinct_iff by blast
  then show ?thesis by simp
qed

lemma end_flight_held:
  "i < length (w_flights w) \<Longrightarrow> mset (held ((end_flight res i w)\<lparr>w_metrics := ms\<rparr>)) \<subseteq># mset (held w)"
  using mset_remove_nth [of i "w_flights w" "\<lambda>f. c_lease_token (fl_claimed f)"]
  by (simp add: held_def end_flight_def mset_subset_eq_mono_add)

lemma dispatch_heartbeat_claimed: "dispatch_heartbeat acq env t f db = (Some f', db') \<Longrightarrow> fl_claimed f' = fl_claimed f"
  by (auto simp: dispatch_heartbeat_def Let_def split: sum.splits prod.splits RenewalOutcome.splits option.splits if_splits)

lemma flight_heartbeat_held:
  assumes "i < length (w_flights w)"
  shows "mset (held (snd (flight_heartbeat acq env t i (db, w)))) \<subseteq># mset (held w)"
proof (cases "dispatch_heartbeat acq env t (w_flights w ! i) db")
  case (Pair r db')
  show ?thesis
  proof (cases r)
    case None
    then show ?thesis
      using Pair end_flight_held [OF assms, where res = "Inr ()" and ms = "w_metrics w"] end_flight_metrics [of "Inr ()" i w]
      by (simp add: flight_heartbeat_def)
  next
    case (Some f)
    have "fl_claimed f = fl_claimed (w_flights w ! i)"
      using dispatch_heartbeat_claimed Pair Some by metis
    then have "map (\<lambda>f. c_lease_token (fl_claimed f)) ((w_flights w)[i := f]) =
        map (\<lambda>f. c_lease_token (fl_claimed f)) (w_flights w)"
      using assms by (simp add: map_update list_update_same_conv)
    then show ?thesis using Pair Some by (simp add: flight_heartbeat_def held_def)
  qed
qed

text \<open>A step only gives tokens back, except for a claim, which adds those it has just drawn.\<close>

lemma claim_tasks_held:
  assumes inv: "db_inv db" and ph: "w_phase w = Claiming" and c: "claim_tasks s acq env (db, w) = (db', w')"
  shows "held w' = held w \<or>
    (\<exists>ts. held w' = held w @ ts \<and> distinct ts \<and> set ts \<subseteq> lease_tokens db' - lease_tokens db)"
proof -
  let ?claim = "claim_batch env (cfg_worker_id (s_config s)) (Registry_names (s_registry s)) (of_nat (w_permits w)) db"
  have "\<exists>ts. held w' = held w @ ts \<and> distinct ts \<and> set ts \<subseteq> lease_tokens db' - lease_tokens db"
    if "?claim = (Inr cs, db')" "w' = w\<lparr>w_phase := Dispatching cs\<rparr>" for cs
    using claim_batch_tokens [OF inv that(1)] that(2) ph
    by (intro exI [of _ "map c_lease_token cs"]) (auto simp: held_def lease_tokens_def)
  then show ?thesis
    using c ph by (fastforce simp: claim_tasks_def non_zero_def held_def split: option.splits sum.splits prod.splits if_splits)
qed

lemma dispatch_next_held:
  assumes "w_phase w = Dispatching cs"
  shows "mset (held (dispatch_next s cs w)) \<subseteq># mset (held w)"
  using assms by (cases cs) (auto simp: dispatch_next_def held_def dispatch_start_def split: option.splits)

lemma worker_step_held:
  assumes "worker_step (sched_step cr) cr to_string s (db, w) (db', w')" "db_inv db"
  shows "mset (held w') \<subseteq># mset (held w) \<or>
    (\<exists>ts. held w' = held w @ ts \<and> distinct ts \<and> set ts \<subseteq> lease_tokens db' - lease_tokens db)"
  using assms(1)
proof cases
  case (claim acq env)
  then show ?thesis using claim_tasks_held [OF assms(2) claim(2) claim(1) [symmetric]] by auto
next
  case (dispatch claimed)
  then show ?thesis using dispatch_next_held by blast
next
  case (heartbeat i acq env utc_now)
  then show ?thesis using flight_heartbeat_held [OF heartbeat(2), of acq env utc_now db] by (metis snd_conv)
next
  case (finish i result acq env)
  then show ?thesis
    using end_flight_held [OF finish(2), where res = "Inr ()"] by (auto simp: flight_finish_def split: prod.splits)
next
  case (panic i)
  then show ?thesis
    using end_flight_held [OF panic(3), where res = "Inl JoinPanicked" and ms = "w_metrics w"] end_flight_metrics [of _ i w] by simp
qed (auto simp: held_def after_select_def report_def shut_down_def Let_def split: sum.splits prod.splits)

section \<open>No lease in two hands\<close>

definition fleet_inv :: "'v db \<times> ('i \<Rightarrow> ('v, 'f) worker) \<times> LeaseToken set \<Rightarrow> bool" where
  "fleet_inv = (\<lambda>(db, ws, drawn). db_inv db \<and> lease_tokens db \<subseteq> drawn \<and>
     (\<forall>i. set (held (ws i)) \<subseteq> drawn \<and> distinct (held (ws i))) \<and>
     (\<forall>i j. i \<noteq> j \<longrightarrow> set (held (ws i)) \<inter> set (held (ws j)) = {}))"

lemma fleet_step_inv:
  assumes "fleet_step cr to_string ss c c'" "fleet_inv c"
  shows "fleet_inv c'"
  using assms(1)
proof cases
  case (worker i db ws db' w' drawn)
  have inv: "db_inv db" "lease_tokens db \<subseteq> drawn" "\<And>k. set (held (ws k)) \<subseteq> drawn" "\<And>k. distinct (held (ws k))"
      "\<And>k j. k \<noteq> j \<Longrightarrow> set (held (ws k)) \<inter> set (held (ws j)) = {}"
    using assms(2) worker(1) by (auto simp: fleet_inv_def)
  have "db_inv db'" using sched_steps_inv [OF worker_step_sched [OF worker(3)]] inv(1) by simp
  moreover have "set (held w') \<subseteq> drawn \<union> lease_tokens db' \<and> distinct (held w') \<and>
      (\<forall>k. k \<noteq> i \<longrightarrow> set (held w') \<inter> set (held (ws k)) = {})"
    using worker_step_held [OF worker(3) inv(1)]
  proof
    assume sub: "mset (held w') \<subseteq># mset (held (ws i))"
    then have "set (held w') \<subseteq> set (held (ws i))" by (metis set_mset_mono set_mset_mset)
    then show ?thesis using distinct_mset_mono [OF sub inv(4)] inv(3,5) by blast
  next
    assume "\<exists>ts. held w' = held (ws i) @ ts \<and> distinct ts \<and> set ts \<subseteq> lease_tokens db' - lease_tokens db"
    then obtain ts where ts: "held w' = held (ws i) @ ts" "distinct ts" "set ts \<subseteq> lease_tokens db' - lease_tokens db"
      by blast
    then have "set ts \<inter> drawn = {}" using worker(4) by blast
    then have new: "set ts \<inter> set (held (ws k)) = {}" for k using inv(3) [of k] by blast
    show ?thesis
      unfolding ts(1) using ts(2,3) new inv(3) [of i] inv(4,5) by (auto simp: Int_Un_distrib2)
  qed
  ultimately show ?thesis
    using inv(3-5) worker(2) by (auto simp: fleet_inv_def)
qed

interpretation fleet: simulation "fleet_step cr to_string ss" "sched_step cr" fst fleet_inv for cr to_string ss
proof
  fix c c' assume step: "fleet_step cr to_string ss c c'" and inv: "fleet_inv c"
  show "fleet_inv c'" by (rule fleet_step_inv [OF step inv])
  show "sched_steps cr (fst c) (fst c')" using step by cases (auto dest: worker_step_sched)
qed

lemma fleet_start:
  fixes ss :: "'i \<Rightarrow> ('p, 'v, 'f) Scheduler"
  assumes "\<forall>i. run_start max_permits (ss i) = Some (ws i)" "db_inv db"
  shows "fleet_inv (db, ws, lease_tokens db)"
proof -
  have "run_start max_permits s = Some w \<Longrightarrow> held w = []" for s :: "('p, 'v, 'f) Scheduler" and w
    by (auto simp: run_start_def Let_def held_def split: if_splits)
  then have "held (ws i) = []" for i using assms(1) by blast
  then show ?thesis using assms(2) by (simp add: fleet_inv_def)
qed

lemma held_flights_distinct:
  assumes "fleet_inv (db, ws, drawn)" "a < length (w_flights (ws i))" "b < length (w_flights (ws j))" "(i, a) \<noteq> (j, b)"
  shows "c_lease_token (fl_claimed (w_flights (ws i) ! a)) \<noteq> c_lease_token (fl_claimed (w_flights (ws j) ! b))"
proof -
  have h: "c_lease_token (fl_claimed (w_flights (ws k) ! n)) = held (ws k) ! n" "n < length (held (ws k))"
    if "n < length (w_flights (ws k))" for k n
    using that by (simp_all add: held_def nth_append)
  show ?thesis
  proof (cases "i = j")
    case True
    then have "a \<noteq> b" "distinct (held (ws i))" using assms(1,4) by (auto simp: fleet_inv_def)
    then show ?thesis using h [OF assms(2)] h [OF assms(3)] True by (simp add: nth_eq_iff_index_eq)
  next
    case False
    then have "set (held (ws i)) \<inter> set (held (ws j)) = {}" using assms(1) by (auto simp: fleet_inv_def)
    then show ?thesis using h [OF assms(2)] h [OF assms(3)] nth_mem by (metis disjoint_iff)
  qed
qed

section \<open>Properties\<close>

text \<open>
  C4: one executor per task, across all workers. However the workers of a fleet and other sessions
  interleave, each worker runs as if it were alone among other sessions; two handlers that run at the same time,
  in the same worker or in two, never have the same lease token; and when they run the same task,
  as after an expired lease, at most one of them can act on it: if the completion of one would be
  accepted, every completion, failure and renewal of the other is repelled: refused, or failing on a text
  that cannot be stored, without a change of its own.
\<close>

theorem fleet_one_executor:
  assumes "\<forall>k. run_start max_permits (ss k) = Some (ws0 k)" "db_inv db0"
    and "fleet_steps cr to_string ss (db0, ws0, lease_tokens db0) (db, ws, drawn)"
    and "a < length (w_flights (ws i))" "b < length (w_flights (ws j))" "(i, a) \<noteq> (j, b)"
  shows "worker_steps cr to_string (ss k) (db0, ws0 k) (db, ws k) \<and>
    (let f = fl_claimed (w_flights (ws i) ! a); g = fl_claimed (w_flights (ws j) ! b) in
      c_lease_token f \<noteq> c_lease_token g \<and>
      (c_run_id f = c_run_id g \<and> fst (finalize_run e1 others1 (c_run_id f) (c_lease_token f) o1 db) = Inr FinApplied \<longrightarrow>
        repelled (\<lambda>x. x \<noteq> FinApplied) db (others db)
          (finalize_run e2 others (c_run_id g) (c_lease_token g) o2 db) \<and>
        repelled (\<lambda>x. x = FlFenced \<or> x = FlAlreadyTerminal) db (others db)
          (fail_run e2 others (c_run_id g) (c_lease_token g) err r db) \<and>
        renew_lease e2 (c_run_id g) (c_lease_token g) db = (Inr RenewFenced, db)))"
proof -
  have inv: "fleet_inv (db, ws, drawn)" by (rule fleet.inv_steps [OF assms(3) fleet_start [OF assms(1,2)]])
  then have db: "db_inv db" by (simp add: fleet_inv_def)
  have alone: "worker_steps cr to_string (ss k) (db0, ws0 k) (db, ws k)"
    using member.sim_steps [OF assms(3), of k] by simp
  note tokens = held_flights_distinct [OF inv assms(4-6)]
  let ?f = "fl_claimed (w_flights (ws i) ! a)" and ?g = "fl_claimed (w_flights (ws j) ! b)"
  have "repelled (\<lambda>x. x \<noteq> FinApplied) db (others db) (finalize_run e2 others (c_run_id ?g) (c_lease_token ?g) o2 db) \<and>
      repelled (\<lambda>x. x = FlFenced \<or> x = FlAlreadyTerminal) db (others db)
        (fail_run e2 others (c_run_id ?g) (c_lease_token ?g) err r db) \<and>
      renew_lease e2 (c_run_id ?g) (c_lease_token ?g) db = (Inr RenewFenced, db)"
    if "c_run_id ?f = c_run_id ?g"
      "fst (finalize_run e1 others1 (c_run_id ?f) (c_lease_token ?f) o1 db) = Inr FinApplied"
  proof (rule one_lease_owner [OF db _ tokens])
    show "finalize_run e1 others1 (c_run_id ?g) (c_lease_token ?f) o1 db =
        (Inr FinApplied, snd (finalize_run e1 others1 (c_run_id ?g) (c_lease_token ?f) o1 db))"
      using that by (simp add: prod_eq_iff)
  qed
  then show ?thesis using alone tokens unfolding Let_def by blast
qed

text \<open>Two tasks, claimed at once and started one after the other.\<close>

lemma sample_claim2:
  obtains c d db1 where
    "claim_batch (sample_env 200) sample_worker [JobName_as_str sample_name] 16 sample_db2 = (Inr [c, d], db1)"
proof -
  let ?env = "sample_env 200" and ?names = "[JobName_as_str sample_name]"
  have lim: "uint (16 :: usize) \<le> i64_max" by (simp add: i64_max_def)
  have C: "claim_candidates ?env ?names (unat (16 :: usize)) sample_db2 = [sample_pending, sample_task 4]"
    by (simp add: claim_candidates_def select_ordered_def claimable_def claim_rank_def sample_db_def sample_db2_def
        sample_rows)
  have read: "claim_readable ?env (claim_candidates ?env ?names (unat (16 :: usize)) sample_db2)"
    unfolding C by (simp add: claim_readable_def claim_expiry_def sample_rows sample_lease_def chrono_timestamp_def)
  have "claim_env_ok ?env (claim_candidates ?env ?names (unat (16 :: usize)) sample_db2) sample_db2"
    unfolding C by (simp add: claim_env_ok_def claim_expiry_def sample_rows sample_lease_def pg_timestamp_def
        sample_db_def sample_db2_def)
  then obtain cs db1 where cs: "claim_batch ?env sample_worker ?names 16 sample_db2 = (Inr cs, db1)"
      "list_all2 (\<lambda>row c. decode_claimed row = Inr c) (claimed_rows ?env ?names (unat (16 :: usize)) sample_db2) cs"
    using claim_batch_Ok [OF sample_inv2 sample_200 sample_worker_ok lim _ sample_claim_texts read] by metis
  have "length cs = 2" using claimed_ids(2) [OF cs(2)] sample_inv2 C by (simp add: db_inv_def)
  then obtain c d where "cs = [c, d]" by (auto simp: numeral_2_eq_2 length_Suc_conv)
  then show thesis using that cs(1) by simp
qed

text \<open>A worker that claims and starts them, step by step.\<close>

lemma sample_two_started:
  obtains db w1 w2 w3 w4 f g where
    "worker_step (sched_step sample_croner) sample_croner (\<lambda>_. []) sample_scheduler (sample_db2, sample_idle) (sample_db2, w1)"
    "worker_step (sched_step sample_croner) sample_croner (\<lambda>_. []) sample_scheduler (sample_db2, w1) (db, w2)"
    "worker_step (sched_step sample_croner) sample_croner (\<lambda>_. []) sample_scheduler (db, w2) (db, w3)"
    "worker_step (sched_step sample_croner) sample_croner (\<lambda>_. []) sample_scheduler (db, w3) (db, w4)" "w_flights w4 = [f, g]"
proof -
  let ?step = "worker_step (sched_step sample_croner) sample_croner (\<lambda>_. []) sample_scheduler"
  obtain c d db where claim:
      "claim_batch (sample_env 200) sample_worker [JobName_as_str sample_name] 16 sample_db2 = (Inr [c, d], db)"
    by (rule sample_claim2)
  define w1 where "w1 = after_select (Inr []) sample_idle"
  define w2 where "w2 = w1\<lparr>w_phase := Dispatching [c, d]\<rparr>"
  define w3 where "w3 = dispatch_next sample_scheduler [c, d] w2"
  define w4 where "w4 = dispatch_next sample_scheduler [d] w3"
  have s1: "?step (sample_db2, sample_idle) (sample_db2, w1)"
    unfolding w1_def by (rule worker_step.recover [OF _ sample_no_expired(2)]) (simp add: sample_idle_def)
  have w1: "w_phase w1 = Claiming" "w_permits w1 = 16" "w_flights w1 = []"
    by (simp_all add: w1_def after_select_def sample_idle_def)
  have "claim_tasks sample_scheduler (Inr ()) (sample_env 200) (sample_db2, w1) = (db, w2)"
    using claim w1 by (simp add: claim_tasks_def non_zero_def conn_def w2_def sample_scheduler_def Registry_names_def)
  then have s2: "?step (sample_db2, w1) (db, w2)"
    using worker_step.claim [OF w1(1), of "sched_step sample_croner" sample_croner "\<lambda>_. []" sample_scheduler sample_db2 "Inr ()" "sample_env 200"] by simp
  have s3: "?step (db, w2) (db, w3)" unfolding w3_def by (rule worker_step.dispatch) (simp add: w2_def)
  have cap: "int 1000 \<le> i64_max" by (simp add: i64_max_def)
  have inv2: "worker_inv sample_scheduler (db, w2)"
    using capacity.inv_step [OF s2] capacity.inv_step [OF s1] run_start_inv [OF sample_start cap sample_inv2] by blast
  obtain h where h: "w3 = w2\<lparr>w_phase := Dispatching [d], w_permits := w_permits w2 - 1,
      w_flights := w_flights w2 @ [dispatch_start h c], w_metrics := w_metrics w2 @ [Incr RUNS_CLAIMED]\<rparr>"
    by (rule dispatch_next_ok [OF inv2, of c "[d]"]) (simp_all add: w2_def w3_def)
  have s4: "?step (db, w3) (db, w4)" unfolding w4_def by (rule worker_step.dispatch) (simp add: h)
  obtain k where "w4 = w3\<lparr>w_phase := Dispatching [], w_permits := w_permits w3 - 1,
      w_flights := w_flights w3 @ [dispatch_start k d], w_metrics := w_metrics w3 @ [Incr RUNS_CLAIMED]\<rparr>"
    by (rule dispatch_next_ok [OF capacity.inv_step [OF s3 inv2], of d "[]"]) (simp_all add: h w4_def)
  then have "w_flights w4 = [dispatch_start h c, dispatch_start k d]" by (simp add: h w2_def w1(3))
  then show thesis by (rule that [OF s1 s2 s3 s4])
qed

theorem fleet_one_executor_witness:
  "\<exists>db ws drawn. fleet_steps sample_croner (\<lambda>_. []) (\<lambda>_ :: bool. sample_scheduler)
       (sample_db2, \<lambda>_. sample_idle, lease_tokens sample_db2) (db, ws, drawn) \<and>
     length (w_flights (ws True)) = 2 \<and>
     c_lease_token (fl_claimed (w_flights (ws True) ! 0)) \<noteq> c_lease_token (fl_claimed (w_flights (ws True) ! 1))"
proof -
  let ?ss = "\<lambda>_ :: bool. sample_scheduler" and ?ws = "\<lambda>_ :: bool. sample_idle" and ?D = "lease_tokens sample_db2"
  let ?fleet = "fleet_step sample_croner (\<lambda>_. []) ?ss"
  obtain db w1 w2 w3 w4 f g where
    w: "worker_step (sched_step sample_croner) sample_croner (\<lambda>_. []) sample_scheduler (sample_db2, sample_idle) (sample_db2, w1)"
    "worker_step (sched_step sample_croner) sample_croner (\<lambda>_. []) sample_scheduler (sample_db2, w1) (db, w2)"
    "worker_step (sched_step sample_croner) sample_croner (\<lambda>_. []) sample_scheduler (db, w2) (db, w3)"
    "worker_step (sched_step sample_croner) sample_croner (\<lambda>_. []) sample_scheduler (db, w3) (db, w4)" and two: "w_flights w4 = [f, g]"
    by (rule sample_two_started)
  have f1: "?fleet (sample_db2, ?ws, ?D) (sample_db2, ?ws(True := w1), ?D \<union> ?D)"
    by (rule fleet_quiet) (use w(1) in simp)
  have f2: "?fleet (sample_db2, ?ws(True := w1), ?D \<union> ?D)
      (db, (?ws(True := w1))(True := w2), ?D \<union> ?D \<union> lease_tokens db)"
    by (rule fleet_step.worker) (use w(2) in auto)
  have f3: "?fleet (db, ?ws(True := w2), D) (db, (?ws(True := w2))(True := w3), D \<union> lease_tokens db)" for D
    by (rule fleet_quiet) (use w(3) in simp)
  have f4: "?fleet (db, ?ws(True := w3), D) (db, (?ws(True := w3))(True := w4), D \<union> lease_tokens db)" for D
    by (rule fleet_quiet) (use w(4) in simp)
  have steps: "?fleet\<^sup>*\<^sup>* (sample_db2, ?ws, ?D) (db, ?ws(True := w4), ?D \<union> lease_tokens db)"
    using f1 f2 f3 [of "?D \<union> lease_tokens db"] f4 [of "?D \<union> lease_tokens db"] by (simp add: Un_assoc)
  have start: "\<forall>i. run_start 1000 (?ss i) = Some (?ws i)" using sample_start by simp
  have len: "0 < length (w_flights ((?ws(True := w4)) True))" "1 < length (w_flights ((?ws(True := w4)) True))"
    by (simp_all add: two)
  have ne: "(True, 0 :: nat) \<noteq> (True, 1)" by simp
  show ?thesis
    using fleet_one_executor [OF start sample_inv2 steps len ne] steps two
    by (intro exI [of _ db] exI [of _ "?ws(True := w4)"] exI [of _ "?D \<union> lease_tokens db"]) (simp add: Let_def)
qed

end
