(* ===== verification/Admin.thy ===== *)
theory Admin
  imports Lifecycle Pools
begin

text \<open>
  \<^verbatim>\<open>src/src/admin.rs\<close>: the HTTP routes over schedules and tasks. A request is a route with its path
  argument (\<open>axum\<close> parses it); a handler answers \<open>Inl\<close> a status code with a message or \<open>Inr\<close> a body.
  The texts of errors and UUIDs are the parameters \<open>show_error\<close> and \<open>show_uuid\<close>.
\<close>

type_synonym StatusCode = nat
type_synonym 'b answer = "StatusCode \<times> rust_string + 'b"

definition NO_CONTENT :: StatusCode where "NO_CONTENT = 204"
definition NOT_FOUND :: StatusCode where "NOT_FOUND = 404"
definition INTERNAL_SERVER_ERROR :: StatusCode where "INTERNAL_SERVER_ERROR = 500"
definition SERVICE_UNAVAILABLE :: StatusCode where "SERVICE_UNAVAILABLE = 503"

lemmas status_defs = NO_CONTENT_def NOT_FOUND_def INTERNAL_SERVER_ERROR_def SERVICE_UNAVAILABLE_def

section \<open>Views\<close>

record JobView =
  jv_id :: JobId
  jv_name :: rust_string
  jv_cron_expression :: rust_string
  jv_is_paused :: bool

definition JobView_from :: "'c Job \<Rightarrow> JobView" where
  "JobView_from j =
     \<lparr>jv_id = job_id j, jv_name = JobName_as_str (job_name j),
      jv_cron_expression = CronExpression_as_str (job_cron j),
      jv_is_paused = JobLifecycle_is_paused (job_lifecycle j)\<rparr>"

record TaskStateView =
  tv_state :: string
  tv_worker_id :: "rust_string option"
  tv_finished_at :: "timestamp option"
  tv_error :: "rust_string option"

fun TaskStateView_from :: "RunState \<Rightarrow> TaskStateView" where
  "TaskStateView_from RsPending =
     \<lparr>tv_state = ''pending'', tv_worker_id = None, tv_finished_at = None, tv_error = None\<rparr>"
| "TaskStateView_from (RsRunning lease) =
     \<lparr>tv_state = ''running'', tv_worker_id = Some (WorkerId_as_str (l_worker_id lease)),
      tv_finished_at = None, tv_error = None\<rparr>"
| "TaskStateView_from (RsCompleted finished_at) =
     \<lparr>tv_state = ''completed'', tv_worker_id = None, tv_finished_at = Some finished_at, tv_error = None\<rparr>"
| "TaskStateView_from (RsFailed finished_at error) =
     \<lparr>tv_state = ''failed'', tv_worker_id = None, tv_finished_at = Some finished_at, tv_error = Some error\<rparr>"
| "TaskStateView_from (RsCancelled finished_at) =
     \<lparr>tv_state = ''cancelled'', tv_worker_id = None, tv_finished_at = Some finished_at, tv_error = None\<rparr>"

section \<open>Handlers\<close>

definition acquire :: "acquired \<Rightarrow> unit answer" where
  "acquire acq = map_err (\<lambda>e. (SERVICE_UNAVAILABLE, PoolError_to_string e)) acq"

definition internal :: "(SchedulerError \<Rightarrow> rust_string) \<Rightarrow> SchedulerError + 'a \<Rightarrow> 'a answer" where
  "internal show_error r = map_err (\<lambda>e. (INTERNAL_SERVER_ERROR, show_error e)) r"

definition admin_list_jobs ::
    "(JobName \<Rightarrow> 'k::linorder) \<Rightarrow> 'c croner \<Rightarrow> (SchedulerError \<Rightarrow> rust_string) \<Rightarrow> acquired \<Rightarrow> env \<Rightarrow> 'v db \<Rightarrow>
       JobView list answer" where
  "admin_list_jobs collation cr show_error acq env db =
     and_then (acquire acq) (\<lambda>_.
     and_then (internal show_error (list_jobs collation cr env db)) (\<lambda>jobs.
     Inr (map JobView_from jobs)))"

text \<open>The answer of the three handlers that mutate a schedule.\<close>

definition applied_answer ::
    "(SchedulerError \<Rightarrow> rust_string) \<Rightarrow> rust_string \<Rightarrow> SchedulerError + Applied \<Rightarrow> StatusCode answer" where
  "applied_answer show_error missing r =
     and_then (internal show_error r) (\<lambda>applied.
     case applied of Changed \<Rightarrow> Inr NO_CONTENT | NotFound \<Rightarrow> Inl (NOT_FOUND, missing))"

definition pause_job ::
    "(SchedulerError \<Rightarrow> rust_string) \<Rightarrow> (uuid \<Rightarrow> rust_string) \<Rightarrow> acquired \<Rightarrow> env \<Rightarrow> uuid \<Rightarrow> 'v db \<Rightarrow>
       StatusCode answer \<times> 'v db" where
  "pause_job show_error show_uuid acq env i db =
     (case acquire acq of
        Inl e \<Rightarrow> (Inl e, db)
      | Inr u \<Rightarrow> map_prod (applied_answer show_error (lit ''no job with id '' @ show_uuid i)) id (pause env (JobId i) db))"

definition resume_job ::
    "(SchedulerError \<Rightarrow> rust_string) \<Rightarrow> (uuid \<Rightarrow> rust_string) \<Rightarrow> acquired \<Rightarrow> env \<Rightarrow> uuid \<Rightarrow> 'v db \<Rightarrow>
       StatusCode answer \<times> 'v db" where
  "resume_job show_error show_uuid acq env i db =
     (case acquire acq of
        Inl e \<Rightarrow> (Inl e, db)
      | Inr u \<Rightarrow> map_prod (applied_answer show_error (lit ''no job with id '' @ show_uuid i)) id (resume env (JobId i) db))"

definition delete_job ::
    "(SchedulerError \<Rightarrow> rust_string) \<Rightarrow> (uuid \<Rightarrow> rust_string) \<Rightarrow> acquired \<Rightarrow> uuid \<Rightarrow> 'v db \<Rightarrow>
       StatusCode answer \<times> 'v db" where
  "delete_job show_error show_uuid acq i db =
     (case acquire acq of
        Inl e \<Rightarrow> (Inl e, db)
      | Inr u \<Rightarrow> map_prod (applied_answer show_error (lit ''no job with id '' @ show_uuid i)) id (delete (JobId i) db))"

definition task_state ::
    "(SchedulerError \<Rightarrow> rust_string) \<Rightarrow> (uuid \<Rightarrow> rust_string) \<Rightarrow> acquired \<Rightarrow> uuid \<Rightarrow> 'v db \<Rightarrow>
       TaskStateView answer" where
  "task_state show_error show_uuid acq i db =
     and_then (acquire acq) (\<lambda>_.
     and_then (internal show_error (run_state (RunId i) db)) (\<lambda>found.
     and_then (ok_or found (NOT_FOUND, lit ''no task with id '' @ show_uuid i)) (\<lambda>state.
     Inr (TaskStateView_from state))))"

definition cancel_task ::
    "(SchedulerError \<Rightarrow> rust_string) \<Rightarrow> (uuid \<Rightarrow> rust_string) \<Rightarrow> acquired \<Rightarrow> env \<Rightarrow> 'v db \<Rightarrow>
       ('v db \<Rightarrow> 'v db) \<Rightarrow> uuid \<Rightarrow> 'v db \<Rightarrow> StatusCode answer \<times> 'v db" where
  "cancel_task show_error show_uuid acq env snap others i db =
     (case acquire acq of
        Inl e \<Rightarrow> (Inl e, db)
      | Inr u \<Rightarrow>
          (case cancel env snap others (RunId i) db of
             (r, db') \<Rightarrow>
               (and_then (internal show_error r) (\<lambda>outcome.
                case outcome of
                  Cancelled \<Rightarrow> Inr NO_CONTENT
                | CanAlreadyTerminal \<Rightarrow> Inr NO_CONTENT
                | CanNotFound \<Rightarrow> Inl (NOT_FOUND, lit ''no task with id '' @ show_uuid i)), db')))"

section \<open>Routes\<close>

datatype request =
  GetJobs | PostPause uuid | PostResume uuid | DeleteJob uuid | GetTask uuid | PostCancel uuid

datatype body = JobsBody "JobView list" | TaskBody TaskStateView | StatusOnly StatusCode

definition router ::
    "(JobName \<Rightarrow> 'k::linorder) \<Rightarrow> 'c croner \<Rightarrow> (SchedulerError \<Rightarrow> rust_string) \<Rightarrow> (uuid \<Rightarrow> rust_string) \<Rightarrow>
       acquired \<Rightarrow> env \<Rightarrow> 'v db \<Rightarrow> ('v db \<Rightarrow> 'v db) \<Rightarrow> request \<Rightarrow> 'v db \<Rightarrow> body answer \<times> 'v db" where
  "router collation cr show_error show_uuid acq env snap others req db =
     (case req of
        GetJobs \<Rightarrow> (map_ok JobsBody (admin_list_jobs collation cr show_error acq env db), db)
      | PostPause i \<Rightarrow> map_prod (map_ok StatusOnly) id (pause_job show_error show_uuid acq env i db)
      | PostResume i \<Rightarrow> map_prod (map_ok StatusOnly) id (resume_job show_error show_uuid acq env i db)
      | DeleteJob i \<Rightarrow> map_prod (map_ok StatusOnly) id (delete_job show_error show_uuid acq i db)
      | GetTask i \<Rightarrow> (map_ok TaskBody (task_state show_error show_uuid acq i db), db)
      | PostCancel i \<Rightarrow> map_prod (map_ok StatusOnly) id (cancel_task show_error show_uuid acq env snap others i db))"

section \<open>What an answer means\<close>

lemma acquire_cases:
  obtains (down) e where "acquire acq = Inl (503, e)" | (up) "acquire acq = Inr ()"
  by (cases acq) (auto simp: acquire_def status_defs)

lemma applied_answer_error:
  "applied_answer show_error m r = Inl (code, msg) \<longleftrightarrow>
     (\<exists>e. r = Inl e \<and> code = 500 \<and> msg = show_error e) \<or> (r = Inr NotFound \<and> code = 404 \<and> msg = m)"
  by (cases r) (auto simp: applied_answer_def internal_def status_defs split: Applied.splits)

text \<open>A schedule operation that fails or finds nothing has changed nothing.\<close>

lemma applied_from_affected_NotFound: "applied_from_affected n = NotFound \<longleftrightarrow> n = 0"
  by (simp add: applied_from_affected_def)

lemma set_paused_unchanged:
  assumes "set_paused env jid p db = (r, db')" "(\<exists>e. r = Inl e) \<or> r = Inr NotFound"
  shows "db' = db"
proof -
  have "db\<lparr>jobs := update_where (\<lambda>j. j_id j = jid) f (jobs db)\<rparr> = db"
    if "filter (\<lambda>j. j_id j = jid) (jobs db) = []" for f
    using that by (simp add: update_where_none filter_empty_conv)
  then show ?thesis
    using assms unfolding set_paused_def
    by (cases rule: checked_cases [of "db\<lparr>jobs := update_where (\<lambda>j. j_id j = jid)
           (\<lambda>j. j\<lparr>j_is_paused := p, j_updated_at := env_now env\<rparr>) (jobs db)\<rparr>"])
      (auto simp: transaction_def applied_from_affected_NotFound)
qed

lemma delete_unchanged:
  assumes "delete jid db = (r, db')" "(\<exists>e. r = Inl e) \<or> r = Inr NotFound"
  shows "db' = db"
proof -
  have "db\<lparr>jobs := filter (\<lambda>j. j_id j \<noteq> jid) (jobs db)\<rparr> = db" if "filter (\<lambda>j. j_id j = jid) (jobs db) = []"
    using that by (simp add: filter_empty_conv filter_id_conv)
  then show ?thesis
    using assms unfolding delete_def
    by (cases rule: checked_cases [of "db\<lparr>jobs := filter (\<lambda>j. j_id j \<noteq> jid) (jobs db)\<rparr>"])
      (auto simp: transaction_def applied_from_affected_NotFound)
qed

text \<open>The state text of a task's view.\<close>

primrec state_text :: "task_view \<Rightarrow> string" where
  "state_text TAbsent = ''''"
| "state_text (TPending n m) = ''pending''"
| "state_text (TRunning n m t) = ''running''"
| "state_text (TDone s) =
     (case s of SCompleted \<Rightarrow> ''completed'' | SFailed \<Rightarrow> ''failed'' | SCancelled \<Rightarrow> ''cancelled'' | _ \<Rightarrow> '''')"

lemma observed_text: "observed (Some s) v \<Longrightarrow> tv_state (TaskStateView_from s) = state_text v"
  by (cases s) (auto simp: observed_def)

lemma task_state_answer:
  assumes sch: "schema_ok db" and up: "acquire acq = Inr ()"
  shows "case task_state show_error show_uuid acq i db of
      Inr v \<Rightarrow> view_of db (RunId i) \<noteq> TAbsent \<and> tv_state v = state_text (view_of db (RunId i))
    | Inl (code, msg) \<Rightarrow> code = 404 \<and> view_of db (RunId i) = TAbsent \<or> code = 500"
proof (cases rule: run_state_observed [OF sch, of "RunId i"])
  case s: (1 s)
  show ?thesis
  proof (cases s)
    case None
    then show ?thesis using s up by (simp add: task_state_def internal_def observed_def status_defs)
  next
    case (Some st)
    then have "view_of db (RunId i) \<noteq> TAbsent" using s(2) by (cases st) (auto simp: observed_def)
    then show ?thesis using s up Some observed_text by (simp add: task_state_def internal_def)
  qed
qed (use up in \<open>simp add: task_state_def internal_def map_err_def status_defs\<close>)

text \<open>An error answer has one of three codes and leaves the database in a state that counts as unchanged.\<close>

definition error_without_effect :: "'b answer \<Rightarrow> 'v db set \<Rightarrow> 'v db \<Rightarrow> bool" where
  "error_without_effect res unchanged db' \<longleftrightarrow>
     (\<forall>code msg. res = Inl (code, msg) \<longrightarrow> code \<in> {404, 500, 503} \<and> db' \<in> unchanged)"

lemma error_without_effect_map_ok [simp]:
  "error_without_effect (map_ok f res) U db' \<longleftrightarrow> error_without_effect res U db'"
  by (auto simp: error_without_effect_def)

definition sound_answer :: "'c croner \<Rightarrow> 'v db \<Rightarrow> 'v db set \<Rightarrow> 'b answer \<times> 'v db \<Rightarrow> bool" where
  "sound_answer cr db unchanged t \<longleftrightarrow> sched_steps cr db (snd t) \<and> error_without_effect (fst t) unchanged (snd t)"

text \<open>The three schedule handlers answer an operation of the store through \<open>applied_answer\<close>.\<close>

lemma schedule_handler:
  assumes "sched_step cr db (snd t)" "(\<exists>e. fst t = Inl e) \<or> fst t = Inr NotFound \<Longrightarrow> snd t = db"
  shows "sound_answer cr db {db}
    (case acquire acq of Inl e \<Rightarrow> (Inl e, db) | Inr u \<Rightarrow> map_prod (applied_answer show_error m) id t)"
  using assms
  by (cases acq rule: acquire_cases)
    (auto simp: sound_answer_def error_without_effect_def applied_answer_error)

lemma pause_job_answer: "sound_answer cr db {db} (pause_job show_error show_uuid acq env i db)"
  unfolding pause_job_def
proof (rule schedule_handler)
  show "sched_step cr db (snd (pause env (JobId i) db))" unfolding pause_def by (rule sched_step.set_paused)
  show "snd (pause env (JobId i) db) = db"
    if "(\<exists>e. fst (pause env (JobId i) db) = Inl e) \<or> fst (pause env (JobId i) db) = Inr NotFound"
    using that set_paused_unchanged [of env "JobId i" True db] unfolding pause_def by (metis prod.collapse)
qed

lemma resume_job_answer: "sound_answer cr db {db} (resume_job show_error show_uuid acq env i db)"
  unfolding resume_job_def
proof (rule schedule_handler)
  show "sched_step cr db (snd (resume env (JobId i) db))" unfolding resume_def by (rule sched_step.set_paused)
  show "snd (resume env (JobId i) db) = db"
    if "(\<exists>e. fst (resume env (JobId i) db) = Inl e) \<or> fst (resume env (JobId i) db) = Inr NotFound"
    using that set_paused_unchanged [of env "JobId i" False db] unfolding resume_def by (metis prod.collapse)
qed

lemma delete_job_answer: "sound_answer cr db {db} (delete_job show_error show_uuid acq i db)"
  unfolding delete_job_def
proof (rule schedule_handler)
  show "sched_step cr db (snd (delete (JobId i) db))" by (rule sched_step.delete)
  show "snd (delete (JobId i) db) = db"
    if "(\<exists>e. fst (delete (JobId i) db) = Inl e) \<or> fst (delete (JobId i) db) = Inr NotFound"
    using that delete_unchanged [of "JobId i" db] by (metis prod.collapse)
qed

lemma cancel_task_answer:
  assumes inv: "db_inv db" and others: "sched_steps cr db (others db)"
  shows "sound_answer cr db {db, others db} (cancel_task show_error show_uuid acq env snap others i db)"
proof (cases acq rule: acquire_cases)
  case (down e)
  then show ?thesis by (simp add: sound_answer_def cancel_task_def error_without_effect_def)
next
  case up
  from inv show ?thesis
  proof (cases rule: cancel_cases [of db env snap others "RunId i"])
    case Done
    from inv have "cancel env snap id (RunId i) db = (Inr Cancelled, cancelled_db env (RunId i) db)"
      by (cases rule: cancel_cases [of db env snap id "RunId i"])
        (use Done in \<open>auto simp: cancel_def split: prod.splits sum.splits if_splits\<close>)
    then have "sched_step cr db (cancelled_db env (RunId i) db)"
      using sched_step.cancel [of cr db env snap "RunId i"] by simp
    then show ?thesis
      using Done up by (auto simp: sound_answer_def cancel_task_def error_without_effect_def internal_def)
  qed (use up others in \<open>auto simp: sound_answer_def cancel_task_def error_without_effect_def internal_def status_defs\<close>)
qed

section \<open>Properties\<close>

text \<open>
  C36: the HTTP interface adds nothing to the operations and reports them truthfully. Whatever the
  request, the database moves by transactions of the store; an error answer is 404, 500 or 503 and means
  that the request changed nothing (for a cancellation, that the database is as other sessions left it);
  and the state text of a task is that of its state in the abstract machine.
\<close>

theorem admin_answers:
  assumes "db_inv db" "sched_steps cr db (others db)"
  shows "case router collation cr show_error show_uuid acq env snap others req db of (res, db') \<Rightarrow>
    sched_steps cr db db' \<and> db_inv db' \<and>
    (\<forall>code msg. res = Inl (code, msg) \<longrightarrow> code \<in> {404, 500, 503} \<and> (db' = db \<or> db' = others db)) \<and>
    (\<forall>i v. req = GetTask i \<and> res = Inr (TaskBody v) \<longrightarrow> tv_state v = state_text (view_of db (RunId i)))"
proof -
  let ?t = "router collation cr show_error show_uuid acq env snap others req db"
  have jobs: "error_without_effect (admin_list_jobs collation cr show_error acq env db) {db, others db} db"
    by (cases acq rule: acquire_cases)
      (auto simp: admin_list_jobs_def error_without_effect_def internal_def status_defs and_then_Inl_iff
        map_err_def split: sum.splits)
  have sch: "schema_ok db" using assms(1) by (simp add: db_inv_def)
  have task: "error_without_effect (task_state show_error show_uuid acq i db) {db, others db} db \<and>
      (\<forall>v. task_state show_error show_uuid acq i db = Inr v \<longrightarrow> tv_state v = state_text (view_of db (RunId i)))" for i
    by (cases acq rule: acquire_cases)
      (use task_state_answer [OF sch, where acq = acq and show_error = show_error and show_uuid = show_uuid and i = i] in
        \<open>auto simp: error_without_effect_def task_state_def split: sum.splits\<close>)
  have weaken: "sound_answer cr db {db} (t :: StatusCode answer \<times> 'a db) \<Longrightarrow> sound_answer cr db {db, others db} t" for t
    by (auto simp: sound_answer_def error_without_effect_def)
  have "sound_answer cr db {db, others db} ?t"
    using jobs task weaken [OF pause_job_answer] weaken [OF resume_job_answer] weaken [OF delete_job_answer]
      cancel_task_answer [where others = others and snap = snap, OF assms]
    by (cases req) (simp_all add: router_def sound_answer_def)
  then have "sched_steps cr db (snd ?t) \<and> error_without_effect (fst ?t) {db, others db} (snd ?t)"
    by (simp add: sound_answer_def)
  moreover have "tv_state v = state_text (view_of db (RunId i))" if "req = GetTask i" "fst ?t = Inr (TaskBody v)" for i v
    using task that by (auto simp: router_def)
  moreover have "db_inv (snd ?t)" using calculation(1) sched_steps_inv assms(1) by blast
  ultimately show ?thesis by (auto simp: error_without_effect_def split: prod.splits)
qed

theorem admin_answers_witness:
  "db_inv (snd (router (\<lambda>n. 0 :: nat) sample_croner (\<lambda>_. []) (\<lambda>_. []) (Inr ()) (sample_env 200) sample_db id (PostPause 9) sample_db))"
proof -
  have others: "sched_steps sample_croner sample_db (id sample_db)" by simp
  show ?thesis
    using admin_answers [where others = id and req = "PostPause 9" and collation = "\<lambda>n. 0 :: nat" and
        show_error = "\<lambda>_. []" and show_uuid = "\<lambda>_. []" and acq = "Inr ()" and env = "sample_env 200" and snap = sample_db,
        OF sample_inv others]
    by (simp split: prod.splits)
qed

end
