(* ===== verification/Spec2Isabelle.thy ===== *)
theory Spec2Isabelle
  imports Boundary Progress Fleet Admin
begin

text \<open>
  A verification library for \<open>pg_task_scheduler\<close>, a task queue and cron scheduler in Rust over PostgreSQL.

  \<^bold>\<open>The program.\<close> All state that matters is in three tables: schedules (\<open>scheduler_jobs\<close>), tasks
  (\<open>scheduler_runs\<close>) and the attempts made at them (\<open>scheduler_run_attempts\<close>). Producers enqueue
  tasks, a materializer turns due cron schedules into tasks, workers claim batches of tasks under
  leases, run handlers while renewing the lease, and record the outcome; a reaper takes tasks back
  whose lease has expired; operators cancel, prune, pause and inspect. Sessions run concurrently and
  coordinate only through the database: row locks with \<open>SKIP LOCKED\<close>, a fresh lease token per
  attempt, and guards on token and expiry in every statement of a worker.

  \<^bold>\<open>Theories and sources\<close> (under \<^verbatim>\<open>src/src\<close> unless a path is given):

  \<^item> \<open>Prelude\<close>: results and the \<open>?\<close> operator, list-backed tables with the statement forms used, and
    the locale \<open>simulation\<close>. \<open>Rust_Std\<close>: strings as scalar values with \<open>trim\<close>, checked integer
    conversions, \<open>Duration\<close>.
  \<^item> \<open>Ids\<close> (\<^verbatim>\<open>ids.rs\<close>), \<open>Config_Types\<close> and \<open>Models\<close> (\<^verbatim>\<open>models.rs\<close>), \<open>Errors\<close> (\<^verbatim>\<open>error.rs\<close>), \<open>Cron\<close>
    (\<^verbatim>\<open>cron.rs\<close>): the value types with their constructors and conversions. Each Rust struct is a record,
    each enum a datatype; a function \<open>T::f\<close> is \<open>T_f\<close>.
  \<^item> \<open>Tables\<close> (\<^verbatim>\<open>schema.rs\<close> and \<^verbatim>\<open>src/migrations/0001_create_scheduler_tables/up.sql\<close>): rows, column types,
    \<open>CHECK\<close>, \<open>UNIQUE\<close> and foreign key constraints as executable predicates; \<open>checked\<close> is the outcome of a
    statement, \<open>transaction\<close> its commit or rollback. \<open>Invariants\<close>: the cross-table invariant \<open>db_inv\<close>.
    \<open>Task_Spec\<close>: the abstract state machine \<open>task_step\<close> of one task and the contract \<open>safe_operation\<close>.
    \<open>Samples\<close>: the database the theorems are exercised on.
  \<^item> \<open>Claim\<close> (\<^verbatim>\<open>store/claim.rs\<close>), \<open>Finalize\<close> (\<^verbatim>\<open>store/finalize.rs\<close>), \<open>Reap\<close> (\<^verbatim>\<open>store/reap.rs\<close>), \<open>Materialize\<close>
    (\<^verbatim>\<open>store/materialize.rs\<close>), \<open>Inspect\<close> (\<^verbatim>\<open>store/inspect.rs\<close>), \<open>Queue\<close> (\<^verbatim>\<open>queue.rs\<close>), \<open>Jobs\<close> (\<^verbatim>\<open>jobs.rs\<close>): one
    definition per SQL statement, in capitals as in the source, and one per public function. An operation
    maps an environment, its arguments and the database to a result and the database it leaves.
  \<^item> \<open>Lifecycle\<close>: the scheduler as a step relation \<open>sched_step\<close> with one rule per operation that can change
    the database; interleaved sessions are sequences of steps. \<open>Progress\<close>: claimers at work
    at once, the steps that lead every unfinished task on, and a race of a cancellation with a claim.
  \<^item> \<open>Registry\<close> (\<^verbatim>\<open>runtime/registry.rs\<close>, \<^verbatim>\<open>builder.rs\<close>, \<^verbatim>\<open>health.rs\<close>, \<^verbatim>\<open>context.rs\<close>): handlers and the builder.
    \<open>Metrics\<close> (\<^verbatim>\<open>metrics.rs\<close>), \<open>Pools\<close> (\<^verbatim>\<open>pool.rs\<close>): the counters and the pool adapters. \<open>Worker\<close>
    (\<^verbatim>\<open>runtime/worker.rs\<close>), \<open>Cycle\<close>: the worker as a step relation over the points of
    \<open>run_until_shutdown\<close>, with the database changed by anybody in between. \<open>Fleet\<close>: any number of workers on one
    database.
  \<^item> \<open>Admin\<close> (\<^verbatim>\<open>admin.rs\<close>): the HTTP handlers. \<open>Boundary\<close>: what the constructors accept is what the schema
    stores and the read side parses.

  \<^bold>\<open>Environment.\<close> A transaction reads an \<open>env\<close>: \<open>now()\<close>, the readings of \<open>clock_timestamp()\<close> per occurrence and
  row (unrelated to each other unless a theorem says so), the rows other sessions have locked, and
  generated UUIDs. \<open>env_ok\<close> says that the clocks are in the range of \<open>timestamptz\<close>. Third-party code is a
  parameter: \<open>croner\<close> (a record; \<open>croner_strict\<close> is its documented exclusive search), \<open>serde\<close>
  conversions, \<open>pg_notify\<close>, the collation of \<open>ORDER BY name\<close>, pool crates, \<open>gnort\<close> (\<open>gnort_ok\<close> is what it documents), handlers and their futures,
  the texts of errors and UUIDs, \<open>tokio\<close>'s limit on permits. The JSON payload is a type variable.

  \<^bold>\<open>Reading rows back.\<close> What a statement returns is decoded by the client, and decoding can fail. \<open>timestamptz\<close>
  goes to the year 294276 and \<open>chrono\<close> to 262142, so a time that PostgreSQL computed (a clock plus a lease or a
  backoff) can be stored and yet not be read (\<open>chrono_timestamp\<close>); a stored payload that \<open>serde_json\<close> refuses (more
  than 128 levels of nesting) is one outside \<open>env_run_args_read\<close> or \<open>env_job_args_read\<close>. Every query that returns times
  or payloads has a \<open>load_...\<close> definition with the columns of its row struct, used where the code decodes: inside
  the transaction for a failure, a renewal, a materialized schedule and the mutations of schedules, which it rolls
  back; after the commit for a claim, whose effect stays. In the other direction \<open>bind_texts\<close> and \<open>bind_timestamp\<close> are
  the refusal of parameters that PostgreSQL cannot represent.

  \<^bold>\<open>Isolation.\<close> A statement is atomic, and so is a transaction, because the first statement of each that writes
  locks the rows it goes on with. Where the code leaves gaps they are in the model: the argument \<open>others\<close> is
  what other sessions commit between two transactions of one call (\<open>materialize_due_jobs\<close>, \<open>cancel\<close>) and between
  the two statements of a \<open>finalize_run\<close> or \<open>fail_run\<close> whose update found no row and so locked none. The
  isolation level is \<open>READ COMMITTED\<close>: a statement that had to wait for a row works on its latest version but
  finds other rows as of its start. This matters where one statement joins two tables and does not skip locked rows,
  that is for \<open>CANCEL\<close>, which has the earlier database as its argument \<open>snap\<close>; a row passed over by a statement
  with \<open>SKIP LOCKED\<close> because its snapshot is older counts as locked in \<open>env_run_locked\<close>.

  \<^bold>\<open>What is shown.\<close>

  \<^item> Invariant and refinement: every operation keeps \<open>db_inv\<close> and moves every task along \<open>task_step\<close>,
    through one interpretation of \<open>safe_operation\<close> per operation; lifted to runs of the scheduler, of
    workers and of fleets by interpretations of \<open>simulation\<close> (C1, C2, C3), with what it means for the states,
    histories and outcomes a reader sees (C29 to C31).
  \<^item> Exclusion and fencing: in a fleet no lease is in two hands and at most one handler of a task can act (C4);
    claims are atomic, though their answer can be lost (C5), and exclusive, also between claimers that run at once; without a live lease nobody acts; an
    outcome is recorded once; a closed attempt is fenced for ever (C5 to C9), over the locale \<open>leased_operation\<close>
    that completion, failure and renewal share.
  \<^item> Progress: no unfinished task is stuck (C10), and a claimable task whose handler returns is claimed, run and
    completed by the worker's own steps alone (C12). The step relation of a worker takes the relation of the
    other sessions as a parameter: \<open>worker_steps\<close> is a worker among sessions that run any operation,
    \<open>own_steps\<close> one without others.
  \<^item> Function of each operation, errors included (C13 to C28), and of the worker: capacity, heartbeats,
    unreadable payloads (C11, C32 to C34). Texts with U+0000, which Rust has and \<open>TEXT\<close> has not, are refused
    where a statement binds them; C34 and C40 say what that costs. Where the answer has to be read back the
    theorem has both cases, the effect and the decoding error (C16, C17, C27, C29, C30, C34, C39), or names the
    readable rows it needs (C14, C24, C28).
  \<^item> The outer interfaces: the builder (C35), HTTP answers (C36), counters (C37); \<open>Boundary\<close> and the theories of
    the value types hold the lemmas for their round trips.
  \<^item> Four defects as theorems: a claim that commits and answers an error, so that its tasks run without a worker until
    their leases expire (C5), a cancellation that misses a claim and answers \<open>AlreadyTerminal\<close> for a running task
    (C38), a schedule without a next occurrence that holds up all later ones (C39), and a lease that overflows
    \<open>timestamptz\<close>, or a name with U+0000, that makes the whole claim batch fail (C40).

  \<^bold>\<open>Loops.\<close> The materializer's loop is bounded by 100 in the source; \<open>materialize_loop\<close> terminates by that
  bound and no fuel is used anywhere. The worker's loop and the heartbeat loop do not end by themselves and
  are step relations.

  \<^bold>\<open>Not modelled.\<close> The module files (\<^verbatim>\<open>lib.rs\<close>, \<^verbatim>\<open>store/mod.rs\<close>, \<^verbatim>\<open>runtime/mod.rs\<close>) declare and re-export only.
  Tracing (but for joined handlers), \<open>Debug\<close> output and the derives of \<open>serde\<close>, Diesel and \<open>thiserror\<close> are left out. The
  delays of timers are abstracted: a heartbeat or tick may happen at any time, which covers every
  schedule of \<open>tokio\<close>. PostgreSQL's refusal of an escaped U+0000 inside a \<open>JSONB\<close> payload
  is not modelled, since the payload is a type variable. A \<open>chrono\<close> timestamp is whole microseconds, as stored.
\<close>

end
